(* ===== verification/Prelude.thy ===== *)
theory Prelude
  imports Main
begin

text \<open>
  Shared vocabulary of the development: the identifier types of the chat server
  (user ids are JavaScript numbers used as integers, room ids are strings), the
  theorem collections the component theories fill, and generic facts on lists
  that the room operations rely on (removal of one occurrence, membership after
  removal, the last element).
\<close>

type_synonym uid = int
type_synonym rid = string

named_theorems store_simps \<open>how the store commands change the store\<close>
named_theorems room_simps \<open>how the room record transformations change the fields\<close>

subsection \<open>Lists: removing one occurrence\<close>

lemma remove1_split_first:
  assumes "x \<in> set xs"
  shows "\<exists>ys zs. xs = ys @ x # zs \<and> x \<notin> set ys \<and> remove1 x xs = ys @ zs"
  using assms
proof (induction xs)
  case Nil
  then show ?case by simp
next
  case (Cons y xs)
  show ?case
  proof (cases "y = x")
    case True
    then show ?thesis by (intro exI [of _ "[]"] exI [of _ xs]) auto
  next
    case False
    with Cons obtain ys zs where "xs = ys @ x # zs" "x \<notin> set ys" "remove1 x xs = ys @ zs"
      by auto
    with False show ?thesis by (intro exI [of _ "y # ys"] exI [of _ zs]) auto
  qed
qed

lemma set_remove1_distinct_member:
  "distinct xs \<Longrightarrow> y \<in> set (remove1 x xs) \<longleftrightarrow> y \<in> set xs \<and> y \<noteq> x"
  by simp

lemma remove1_nonmember_same [simp]:
  "x \<notin> set xs \<Longrightarrow> remove1 x xs = xs"
  by (rule remove1_idem)

lemma mem_remove1_other:
  "y \<noteq> x \<Longrightarrow> y \<in> set (remove1 x xs) \<longleftrightarrow> y \<in> set xs"
  by (induction xs) auto

lemma count_remove1_self:
  "x \<in> set xs \<Longrightarrow> count_list (remove1 x xs) x = count_list xs x - 1"
  by (induction xs) auto

lemma distinct_count_le_1:
  "distinct xs \<Longrightarrow> count_list xs x \<le> 1"
  by (induction xs) auto

lemma remove1_eq_Nil_iff: "x \<in> set xs \<Longrightarrow> remove1 x xs = [] \<longleftrightarrow> xs = [x]"
  by (induction xs) auto

lemma count_list_remove1:
  "count_list (remove1 x xs) y = (if x = y then count_list xs y - 1 else count_list xs y)"
  by (induction xs) auto

lemma count_list_fold_remove1:
  "count_list (fold remove1 ys xs) a = count_list xs a - count_list ys a"
  by (induction ys arbitrary: xs) (auto simp: count_list_remove1)

lemma fold_remove1_self: "fold remove1 xs xs = []"
proof -
  have "count_list (fold remove1 xs xs) a = 0" for a by (simp add: count_list_fold_remove1)
  then show ?thesis by (metis count_list_0_iff last_in_set)
qed

lemma hd_in_set_nonempty [intro]:
  "xs \<noteq> [] \<Longrightarrow> hd xs \<in> set xs"
  by simp

subsection \<open>Lists: the last element\<close>

lemma set_butlast_distinct:
  assumes d: "distinct xs"
  shows "set (butlast xs) = set xs - {last xs}"
proof (cases xs rule: rev_cases)
  case Nil
  then show ?thesis by simp
next
  case (snoc ys y)
  with d show ?thesis by auto
qed

end
