(* ===== verification/JsRuntime.thy ===== *)
theory JsRuntime
  imports Prelude
begin

text \<open>
  The JavaScript built-ins that room.service.ts applies to the arrays of a room and
  to the clock: \<open>Array.prototype.indexOf\<close> (which answers -1 for a missing
  element), \<open>Array.prototype.splice(start, 1)\<close> (which counts a negative start
  from the end and removes nothing beyond the end), and \<open>String(n)\<close> on the
  non-negative integer \<open>Date.now()\<close>. They are written after the ECMAScript
  specification, not after the source, since they are not code of the repository.
  The main facts: splicing at the index of a present element is \<open>remove1\<close>;
  splicing at the index of an absent one removes the last element instead; and the
  decimal rendering of a number is injective, by a round trip through its value.
\<close>

subsection \<open>Definitions\<close>

fun js_indexOf :: "'a list \<Rightarrow> 'a \<Rightarrow> int" where
  "js_indexOf [] x = -1"
| "js_indexOf (y # ys) x =
     (if y = x then 0 else (let i = js_indexOf ys x in if i < 0 then -1 else i + 1))"

definition js_splice1 :: "'a list \<Rightarrow> int \<Rightarrow> 'a list" where
  "js_splice1 xs start =
     (let len = int (length xs);
          k = (if start < 0 then max (len + start) 0 else min start len)
      in take (nat k) xs @ drop (nat k + 1) xs)"

definition digit_char :: "nat \<Rightarrow> char" where
  "digit_char d = ''0123456789'' ! d"

fun js_String_nat :: "nat \<Rightarrow> string" where
  "js_String_nat n =
     (if n < 10 then [digit_char n]
      else js_String_nat (n div 10) @ [digit_char (n mod 10)])"

declare js_String_nat.simps [simp del]

text \<open>The value of a string of decimal digits, the inverse used to prove injectivity.\<close>

definition decimal_value :: "string \<Rightarrow> nat" where
  "decimal_value cs = foldl (\<lambda>acc c. 10 * acc + (of_char c - 48)) 0 cs"

subsection \<open>indexOf and splice\<close>

lemma js_indexOf_nonneg_iff: "0 \<le> js_indexOf xs x \<longleftrightarrow> x \<in> set xs"
  by (induction xs) (auto simp: Let_def)

lemma js_indexOf_absent [simp]: "x \<notin> set xs \<Longrightarrow> js_indexOf xs x = -1"
  by (induction xs) (auto simp: Let_def)

lemma js_indexOf_eq_minus_one [simp]: "js_indexOf xs x = -1 \<longleftrightarrow> x \<notin> set xs"
proof
  assume "js_indexOf xs x = -1"
  then show "x \<notin> set xs" using js_indexOf_nonneg_iff [of xs x] by auto
qed simp

lemma js_splice1_Cons_zero [simp]: "js_splice1 (y # ys) 0 = ys"
  by (simp add: js_splice1_def)

lemma js_splice1_nonneg:
  assumes "0 \<le> start"
  shows "js_splice1 xs start = take (nat start) xs @ drop (Suc (nat start)) xs"
proof (cases "start \<le> int (length xs)")
  case True
  with assms show ?thesis by (simp add: js_splice1_def Let_def min_def)
next
  case False
  with assms show ?thesis by (simp add: js_splice1_def Let_def min_def)
qed

lemma js_splice1_Cons_succ:
  "0 \<le> i \<Longrightarrow> js_splice1 (y # ys) (i + 1) = y # js_splice1 ys i"
  by (simp add: js_splice1_nonneg nat_add_distrib)

lemma js_splice1_minus_one: "js_splice1 xs (-1) = butlast xs"
  by (simp add: js_splice1_def butlast_conv_take max_def nat_diff_distrib)

lemma js_splice1_indexOf_present:
  "x \<in> set xs \<Longrightarrow> js_splice1 xs (js_indexOf xs x) = remove1 x xs"
proof (induction xs)
  case Nil
  then show ?case by simp
next
  case (Cons y ys)
  show ?case
  proof (cases "y = x")
    case True
    then show ?thesis by simp
  next
    case False
    with Cons.prems have x: "x \<in> set ys" by simp
    then have "0 \<le> js_indexOf ys x" by (simp add: js_indexOf_nonneg_iff)
    with False Cons.IH [OF x] show ?thesis
      by (simp add: Let_def js_splice1_Cons_succ)
  qed
qed

lemma js_splice1_indexOf_absent:
  "x \<notin> set xs \<Longrightarrow> js_splice1 xs (js_indexOf xs x) = butlast xs"
  by (simp add: js_splice1_minus_one)

lemmas js_splice1_indexOf = js_splice1_indexOf_present js_splice1_indexOf_absent

lemma js_splice1_indexOf_subset:
  "set (js_splice1 xs (js_indexOf xs x)) \<subseteq> set xs"
  by (cases "x \<in> set xs")
     (auto simp: js_splice1_indexOf_present js_splice1_minus_one
           dest: in_set_butlastD set_remove1_subset [THEN subsetD])

lemma js_splice1_indexOf_distinct:
  "distinct xs \<Longrightarrow> distinct (js_splice1 xs (js_indexOf xs x))"
  by (cases "x \<in> set xs")
     (auto simp: js_splice1_indexOf_present js_splice1_minus_one distinct_butlast)

lemma js_splice1_indexOf_gone:
  "distinct xs \<Longrightarrow> x \<notin> set (js_splice1 xs (js_indexOf xs x))"
  by (cases "x \<in> set xs")
     (auto simp: js_splice1_indexOf_present js_splice1_minus_one dest: in_set_butlastD)

subsection \<open>String(n) is injective\<close>

lemma decimal_value_snoc:
  "decimal_value (cs @ [c]) = 10 * decimal_value cs + (of_char c - 48)"
  by (simp add: decimal_value_def)

lemma of_char_digit_char: "d < 10 \<Longrightarrow> of_char (digit_char d) - 48 = (d::nat)"
  by (auto simp: digit_char_def less_Suc_eq numeral_eq_Suc)

lemma decimal_value_js_String_nat: "decimal_value (js_String_nat n) = n"
proof (induction n rule: js_String_nat.induct)
  case (1 n)
  show ?case
  proof (cases "n < 10")
    case True
    then show ?thesis
      by (simp add: js_String_nat.simps [of n] decimal_value_def of_char_digit_char)
  next
    case False
    with "1.IH" have "decimal_value (js_String_nat (n div 10)) = n div 10" by simp
    with False show ?thesis
      by (simp add: js_String_nat.simps [of n] decimal_value_snoc of_char_digit_char)
  qed
qed

lemma js_String_nat_inj: "js_String_nat m = js_String_nat n \<longleftrightarrow> m = n"
  by (metis decimal_value_js_String_nat)

lemma js_String_nat_digits: "set (js_String_nat n) \<subseteq> set ''0123456789'' \<and> js_String_nat n \<noteq> []"
proof -
  define D where "D = set ''0123456789''"
  have d: "d < 10 \<Longrightarrow> digit_char d \<in> D" for d
    unfolding digit_char_def D_def by (rule nth_mem) simp
  have "set (js_String_nat m) \<subseteq> D \<and> js_String_nat m \<noteq> []" for m
  proof (induction m rule: js_String_nat.induct)
    case (1 m)
    show ?case
    proof (cases "m < 10")
      case True
      then show ?thesis by (simp add: js_String_nat.simps [of m] d)
    next
      case False
      with "1.IH" show ?thesis by (simp add: js_String_nat.simps [of m] d)
    qed
  qed
  then show ?thesis unfolding D_def .
qed

text \<open>Only zero is printed with a leading zero, and then as the single digit.\<close>

lemma js_String_nat_lead: "hd (js_String_nat n) = CHR ''0'' \<Longrightarrow> js_String_nat n = ''0''"
proof (induction n rule: js_String_nat.induct)
  case (1 n)
  show ?case
  proof (cases "n < 10")
    case True
    with "1.prems" have "digit_char n = CHR ''0''" by (simp add: js_String_nat.simps [of n])
    with True have "n = 0" by (auto simp: digit_char_def less_Suc_eq numeral_eq_Suc)
    then show ?thesis by (simp add: js_String_nat.simps digit_char_def)
  next
    case False
    have ne: "js_String_nat (n div 10) \<noteq> []" using js_String_nat_digits by blast
    with "1.prems" False have "hd (js_String_nat (n div 10)) = CHR ''0''"
      by (simp add: js_String_nat.simps [of n])
    with "1.IH" False have "js_String_nat (n div 10) = ''0''" by simp
    then have "n div 10 = 0" using js_String_nat_inj [of "n div 10" 0]
      by (simp add: js_String_nat.simps digit_char_def)
    with False show ?thesis by simp
  qed
qed

subsection \<open>Properties of the runtime model\<close>

text \<open>
  The idiom \<open>xs.splice(xs.indexOf(x), 1)\<close>, which room.service.ts uses for
  every removal from a room's arrays, removes the first occurrence of \<open>x\<close> when
  \<open>x\<close> is present, and removes the last element when it is absent (\<open>indexOf\<close>
  answers -1 and \<open>splice\<close> counts -1 from the end).
\<close>

theorem splice_at_indexOf:
  "js_splice1 xs (js_indexOf xs x) = (if x \<in> set xs then remove1 x xs else butlast xs)"
  by (simp add: js_splice1_indexOf_present js_splice1_minus_one)

text \<open>
  \<open>String(n)\<close> of a clock value is a non-empty string of decimal digits from
  which the value is recovered: the round trip through \<open>decimal_value\<close> is the
  identity, so distinct clock values give distinct room ids.
\<close>

theorem js_String_nat_roundtrip:
  "decimal_value (js_String_nat n) = n \<and> js_String_nat n \<noteq> [] \<and>
   set (js_String_nat n) \<subseteq> set ''0123456789''"
  using decimal_value_js_String_nat js_String_nat_digits by blast

lemma length_js_String_nat_div:
  "\<not> n < 10 \<Longrightarrow> length (js_String_nat n) = Suc (length (js_String_nat (n div 10)))"
  by (subst js_String_nat.simps) simp

end
