(* ===== verification/Room.thy ===== *)
theory Room
  imports JsRuntime
begin

text \<open>
  The data of the room coordinator: the \<open>Room\<close> record that room.service.ts
  stores as JSON under the key \<open>Room:<id>\<close> (the type itself lives in
  src/module/chat/type, which is not part of the sources, so its fields are taken
  from the spec, section 3), and the rejections the service raises as
  \<open>WsException\<close>, one constructor per message of the source.
\<close>

record room =
  room_id :: rid
  isPublic :: bool
  ownerId :: uid
  memberIds :: "uid list"
  waitingIds :: "uid list"
  refusedIds :: "uid list"

text \<open>The \<open>WsException\<close> messages of room.service.ts, in source order.\<close>

datatype error =
    LeaveBeforeCreate   \<comment> \<open>'Please leave current room before creating a new one'\<close>
  | RoomNotExist        \<comment> \<open>'Room does not exist!'\<close>
  | LeaveBeforeJoin     \<comment> \<open>'Please leave current room before joining another one!'\<close>
  | RoomPrivate         \<comment> \<open>'This room is private!'\<close>
  | NotInRoom           \<comment> \<open>'You are not in this room!'\<close>
  | NotOwner            \<comment> \<open>'You are not owner of this room!'\<close>
  | MemberNotInRoom     \<comment> \<open>'Member is not in this room!'\<close>
  | NewOwnerNotMember   \<comment> \<open>'New owner must be a member in this room!'\<close>
  | GuestOffline        \<comment> \<open>'Please only invite online user!'\<close>
  | AlreadyInvited      \<comment> \<open>'This user has been invited!'\<close>
  | NotInvited          \<comment> \<open>'You are not invited to this room!'\<close>

end
