(* ===== verification/Store.thy ===== *)
theory Store
  imports Room
begin

text \<open>
  The shared Redis store as room.service.ts uses it (spec, section 2, Store Adapter).
  Three key spaces: \<open>Room:<id>\<close> holds a room (as JSON; the model stores the
  record itself, since the service only ever reads back what it wrote), the list
  \<open>UId2RIds:<uid>\<close> holds the reverse index from a user to the rooms they
  are in (a missing list reads as the empty list, as in Redis), and
  \<open>UID2SId:<uid>\<close> holds the socket id of an online user, written only by the
  session layer. A write is a command; a pipeline is a list of commands executed in
  order in one round trip (\<open>exec\<close>). \<open>commit\<close> runs the pipeline a
  service operation has planned on the state it read, which is how every mutating
  method of the service ends.
\<close>

subsection \<open>Definitions\<close>

record store =
  rooms :: "rid \<Rightarrow> room option"
  uid2rids :: "uid \<Rightarrow> rid list"
  uid2sid :: "uid \<Rightarrow> string option"

definition empty_store :: "(uid \<Rightarrow> string option) \<Rightarrow> store" where
  "empty_store sids = \<lparr>rooms = Map.empty, uid2rids = (\<lambda>_. []), uid2sid = sids\<rparr>"

text \<open>\<open>LREM key count value\<close>: a positive count removes that many occurrences from
  the head, a negative one from the tail, zero removes all.\<close>

fun lrem_head :: "nat \<Rightarrow> 'a \<Rightarrow> 'a list \<Rightarrow> 'a list" where
  "lrem_head 0 x ys = ys"
| "lrem_head (Suc n) x [] = []"
| "lrem_head (Suc n) x (y # ys) =
     (if y = x then lrem_head n x ys else y # lrem_head (Suc n) x ys)"

definition redis_lrem :: "int \<Rightarrow> 'a \<Rightarrow> 'a list \<Rightarrow> 'a list" where
  "redis_lrem c x ys =
     (if c = 0 then filter (\<lambda>y. y \<noteq> x) ys
      else if 0 < c then lrem_head (nat c) x ys
      else rev (lrem_head (nat (- c)) x (rev ys)))"

datatype cmd =
    SET rid room       \<comment> \<open>\<open>set(Room:<id>, JSON.stringify(room))\<close>\<close>
  | DEL rid            \<comment> \<open>\<open>del(Room:<id>)\<close>\<close>
  | LPUSH uid rid      \<comment> \<open>\<open>lpush(UId2RIds:<uid>, id)\<close>\<close>
  | LREM uid int rid   \<comment> \<open>\<open>lrem(UId2RIds:<uid>, count, id)\<close>\<close>

fun apply_cmd :: "cmd \<Rightarrow> store \<Rightarrow> store" where
  "apply_cmd (SET k r) s = s\<lparr>rooms := (rooms s)(k \<mapsto> r)\<rparr>"
| "apply_cmd (DEL k) s = s\<lparr>rooms := (rooms s)(k := None)\<rparr>"
| "apply_cmd (LPUSH u k) s = s\<lparr>uid2rids := (uid2rids s)(u := k # uid2rids s u)\<rparr>"
| "apply_cmd (LREM u c k) s = s\<lparr>uid2rids := (uid2rids s)(u := redis_lrem c k (uid2rids s u))\<rparr>"

definition exec :: "cmd list \<Rightarrow> store \<Rightarrow> store" where
  "exec cs s = fold apply_cmd cs s"

definition commit :: "error + ('a \<times> cmd list) \<Rightarrow> store \<Rightarrow> error + ('a \<times> store)" where
  "commit p s = (case p of Inl e \<Rightarrow> Inl e | Inr (a, cs) \<Rightarrow> Inr (a, exec cs s))"

subsection \<open>Redis list commands\<close>

lemma lrem_head_one: "lrem_head (Suc 0) x ys = remove1 x ys"
  by (induction ys) auto

lemma redis_lrem_one [simp]: "redis_lrem 1 x ys = remove1 x ys"
  by (simp add: redis_lrem_def lrem_head_one)

subsection \<open>Pipelines\<close>

lemma exec_Nil [simp, store_simps]: "exec [] s = s"
  by (simp add: exec_def)

lemma exec_Cons [simp, store_simps]: "exec (c # cs) s = exec cs (apply_cmd c s)"
  by (simp add: exec_def)

lemma exec_append [store_simps]: "exec (cs @ ds) s = exec ds (exec cs s)"
  by (simp add: exec_def)

lemma commit_Inl [simp]: "commit (Inl e) s = Inl e"
  by (simp add: commit_def)

lemma commit_Inr [simp]: "commit (Inr (a, cs)) s = Inr (a, exec cs s)"
  by (simp add: commit_def)

lemma commit_Inr_iff:
  "commit p s = Inr (a, s') \<longleftrightarrow> (\<exists>cs. p = Inr (a, cs) \<and> s' = exec cs s)"
  by (auto simp: commit_def split: sum.splits)

lemma apply_cmd_uid2sid [simp]: "uid2sid (apply_cmd c s) = uid2sid s"
  by (cases c) auto

lemma exec_uid2sid [simp]: "uid2sid (exec cs s) = uid2sid s"
  by (induction cs arbitrary: s) auto

subsection \<open>Removing what was pushed\<close>

lemma lrem_head_count:
  "count_list (lrem_head n x ys) x = count_list ys x - n \<and>
   filter (\<lambda>y. y \<noteq> x) (lrem_head n x ys) = filter (\<lambda>y. y \<noteq> x) ys"
  by (induction n x ys rule: lrem_head.induct) auto

lemma redis_lrem_count:
  "c \<noteq> 0 \<Longrightarrow> count_list (redis_lrem c x ys) x = count_list ys x - nat \<bar>c\<bar>"
  using lrem_head_count [of "nat c" x ys] lrem_head_count [of "nat (- c)" x "rev ys"]
  by (auto simp: redis_lrem_def count_list_rev)

lemma redis_lrem_others:
  "filter (\<lambda>y. y \<noteq> x) (redis_lrem c x ys) = filter (\<lambda>y. y \<noteq> x) ys"
  using lrem_head_count [of "nat c" x ys] lrem_head_count [of "nat (- c)" x "rev ys"]
  by (auto simp: redis_lrem_def rev_filter [symmetric] filter_filter)

text \<open>\<open>LREM u 1 k\<close> right after \<open>LPUSH u k\<close> gives back the store as it was,
  whatever the list held before (also when it already held \<open>k\<close>).\<close>

lemma lpush_lrem_undo: "exec [LPUSH u k, LREM u 1 k] s = s"
  by (simp add: exec_def)

end
