(* ===== verification/RoomService.thy ===== *)
theory RoomService
  imports Store
begin

text \<open>
  The methods of \<open>RoomService\<close> (src/src/module/chat/service/room.service.ts),
  in source order. Each mutating method reads the store, checks its guards (each
  \<open>throw new WsException\<close> is an \<open>Inl\<close> of the error datatype), computes the
  new room in memory and ends with one pipeline of writes. The model splits each such
  method into \<open>X_plan\<close>, which reads the store and returns the result and the
  pipeline, and \<open>X\<close>, which commits the pipeline to the store it read; the
  split is what the concurrency theory interleaves. The flag
  \<open>AppConfig.allowJoinMultipleRooms\<close> is the parameter \<open>allow\<close>;
  \<open>Date.now()\<close> is the parameter \<open>now\<close>. Array mutations
  (\<open>push\<close>, \<open>splice\<close> at \<open>indexOf\<close>) are the JavaScript ones of
  JsRuntime, including their behaviour when the element is absent.
\<close>

subsection \<open>Reads\<close>

definition isMemberOfAny :: "store \<Rightarrow> uid \<Rightarrow> bool" where
  "isMemberOfAny s memberId = (0 < length (uid2rids s memberId))"

definition get :: "store \<Rightarrow> rid \<Rightarrow> error + room" where
  "get s roomId = (case rooms s roomId of None \<Rightarrow> Inl RoomNotExist | Some r \<Rightarrow> Inr r)"

fun getMany :: "store \<Rightarrow> rid list \<Rightarrow> room list" where
  "getMany s [] = []"
| "getMany s (k # ks) =
     (case rooms s k of Some r \<Rightarrow> r # getMany s ks | None \<Rightarrow> getMany s ks)"

subsection \<open>book\<close>

definition book_plan :: "bool \<Rightarrow> uid \<Rightarrow> bool \<Rightarrow> nat \<Rightarrow> store \<Rightarrow> error + (room \<times> cmd list)" where
  "book_plan allow bookerId isPub now s =
     (if \<not> allow \<and> isMemberOfAny s bookerId then Inl LeaveBeforeCreate
      else
        let rid = js_String_nat now;
            r = \<lparr>room_id = rid, isPublic = isPub, ownerId = bookerId, memberIds = [bookerId],
                 waitingIds = [], refusedIds = []\<rparr>
        in Inr (r, [SET rid r, LPUSH bookerId (room_id r)]))"

definition book :: "bool \<Rightarrow> uid \<Rightarrow> bool \<Rightarrow> nat \<Rightarrow> store \<Rightarrow> error + (room \<times> store)" where
  "book allow bookerId isPub now s = commit (book_plan allow bookerId isPub now s) s"

subsection \<open>join\<close>

text \<open>Lines 129-131: the joiner is appended, then \<open>waitingIds\<close> is spliced at the
  joiner's index, then \<open>refusedIds\<close> is spliced at the joiner's index in the
  already spliced \<open>waitingIds\<close>; an absent joiner gives index -1.\<close>

definition join_room :: "uid \<Rightarrow> room \<Rightarrow> room" where
  "join_room joinerId r =
     (let w = js_splice1 (waitingIds r) (js_indexOf (waitingIds r) joinerId)
      in r\<lparr>memberIds := memberIds r @ [joinerId], waitingIds := w,
           refusedIds := js_splice1 (refusedIds r) (js_indexOf w joinerId)\<rparr>)"

definition join_plan :: "bool \<Rightarrow> uid \<Rightarrow> rid \<Rightarrow> store \<Rightarrow> error + (room \<times> cmd list)" where
  "join_plan allow joinerId roomId s =
     (if \<not> allow \<and> isMemberOfAny s joinerId then Inl LeaveBeforeJoin
      else case get s roomId of
        Inl e \<Rightarrow> Inl e
      | Inr r \<Rightarrow>
          if \<not> isPublic r then Inl RoomPrivate
          else let r' = join_room joinerId r
               in Inr (r', [SET (room_id r') r', LPUSH joinerId (room_id r')]))"

definition join :: "bool \<Rightarrow> uid \<Rightarrow> rid \<Rightarrow> store \<Rightarrow> error + (room \<times> store)" where
  "join allow joinerId roomId s = commit (join_plan allow joinerId roomId s) s"

subsection \<open>leave\<close>

text \<open>Lines 157-158 (and 207-208 of \<open>leaveMany\<close>): splice the leaver out of
  \<open>memberIds\<close> at its index and append it to \<open>refusedIds\<close>.\<close>

definition drop_member :: "uid \<Rightarrow> room \<Rightarrow> room" where
  "drop_member u r =
     r\<lparr>memberIds := js_splice1 (memberIds r) (js_indexOf (memberIds r) u),
       refusedIds := refusedIds r @ [u]\<rparr>"

text \<open>Lines 161-177 (and 210-224): delete an emptied room, otherwise hand the
  ownership to the first member if the leaver owned it and write the room back; in
  both cases remove the room from the leaver's index.\<close>

definition leave_cmds :: "uid \<Rightarrow> room \<Rightarrow> room \<times> cmd list" where
  "leave_cmds leaverId r =
     (if memberIds r = [] then (r, [DEL (room_id r), LREM leaverId 1 (room_id r)])
      else
        let r' = r\<lparr>ownerId := (if leaverId = ownerId r then hd (memberIds r) else ownerId r)\<rparr>
        in (r', [SET (room_id r') r', LREM leaverId 1 (room_id r')]))"

definition leave_plan :: "uid \<Rightarrow> rid \<Rightarrow> store \<Rightarrow> error + (room \<times> cmd list)" where
  "leave_plan leaverId roomId s =
     (case get s roomId of
        Inl e \<Rightarrow> Inl e
      | Inr r \<Rightarrow>
          if js_indexOf (memberIds r) leaverId = -1 then Inl NotInRoom
          else Inr (leave_cmds leaverId (drop_member leaverId r)))"

definition leave :: "uid \<Rightarrow> rid \<Rightarrow> store \<Rightarrow> error + (room \<times> store)" where
  "leave leaverId roomId s = commit (leave_plan leaverId roomId s) s"

subsection \<open>leaveMany\<close>

text \<open>The \<open>rooms.map\<close> callback of lines 206-227, over the rooms fetched by
  \<open>getMany\<close>, queueing into one pipeline.\<close>

fun leave_each :: "uid \<Rightarrow> room list \<Rightarrow> room list \<times> cmd list" where
  "leave_each leaverId [] = ([], [])"
| "leave_each leaverId (r # rs) =
     (let (r', cs) = leave_cmds leaverId (drop_member leaverId r);
          (rs', cs') = leave_each leaverId rs
      in (r' # rs', cs @ cs'))"

definition leaveMany_plan :: "uid \<Rightarrow> rid list \<Rightarrow> store \<Rightarrow> room list \<times> cmd list" where
  "leaveMany_plan leaverId roomIds s =
     (let ids = (if roomIds = [] then uid2rids s leaverId else roomIds)
      in if ids = [] then ([], []) else leave_each leaverId (getMany s ids))"

definition leaveMany :: "uid \<Rightarrow> rid list \<Rightarrow> store \<Rightarrow> room list \<times> store" where
  "leaveMany leaverId roomIds s =
     (let (rs, cs) = leaveMany_plan leaverId roomIds s in (rs, exec cs s))"

subsection \<open>kick\<close>

text \<open>The two shapes of the result object: \<open>{room, kickedMemberSId: kickerId}\<close>
  when the kicker kicks itself, \<open>{room, kickedMemberSocketId}\<close> otherwise (the
  socket id read in the same pipeline, \<open>null\<close> when the member is offline).\<close>

datatype kick_result =
    KickedSelf room uid
  | Kicked room "string option"

definition kick_plan :: "uid \<Rightarrow> uid \<Rightarrow> rid \<Rightarrow> store \<Rightarrow> error + (kick_result \<times> cmd list)" where
  "kick_plan kickerId memberId roomId s =
     (if kickerId = memberId then
        (case leave_plan kickerId roomId s of
           Inl e \<Rightarrow> Inl e
         | Inr (r, cs) \<Rightarrow> Inr (KickedSelf r kickerId, cs))
      else case get s roomId of
        Inl e \<Rightarrow> Inl e
      | Inr r \<Rightarrow>
          if ownerId r \<noteq> kickerId then Inl NotOwner
          else if js_indexOf (memberIds r) memberId = -1 then Inl MemberNotInRoom
          else let r' = drop_member memberId r
               in Inr (Kicked r' (uid2sid s memberId),
                       [SET (room_id r') r', LREM memberId 1 (room_id r')]))"

definition kick :: "uid \<Rightarrow> uid \<Rightarrow> rid \<Rightarrow> store \<Rightarrow> error + (kick_result \<times> store)" where
  "kick kickerId memberId roomId s = commit (kick_plan kickerId memberId roomId s) s"

subsection \<open>transferOwnership\<close>

definition transferOwnership_plan :: "uid \<Rightarrow> uid \<Rightarrow> rid \<Rightarrow> store \<Rightarrow> error + (room \<times> cmd list)" where
  "transferOwnership_plan oId candidateId roomId s =
     (case get s roomId of
        Inl e \<Rightarrow> Inl e
      | Inr r \<Rightarrow>
          if ownerId r \<noteq> oId then Inl NotOwner
          else if oId = candidateId \<or> candidateId \<notin> set (memberIds r) then Inl NewOwnerNotMember
          else let r' = r\<lparr>ownerId := candidateId\<rparr> in Inr (r', [SET (room_id r') r']))"

definition transferOwnership :: "uid \<Rightarrow> uid \<Rightarrow> rid \<Rightarrow> store \<Rightarrow> error + (room \<times> store)" where
  "transferOwnership oId candidateId roomId s =
     commit (transferOwnership_plan oId candidateId roomId s) s"

subsection \<open>invite\<close>

text \<open>Lines 348-349: the guest is pushed onto \<open>waitingIds\<close>, then
  \<open>refusedIds\<close> is spliced at the guest's index in the new \<open>waitingIds\<close>.\<close>

definition invite_room :: "uid \<Rightarrow> room \<Rightarrow> room" where
  "invite_room guestId r =
     (let w = waitingIds r @ [guestId]
      in r\<lparr>waitingIds := w, refusedIds := js_splice1 (refusedIds r) (js_indexOf w guestId)\<rparr>)"

definition invite_plan :: "uid \<Rightarrow> uid \<Rightarrow> rid \<Rightarrow> store \<Rightarrow> error + ((room \<times> string) \<times> cmd list)" where
  "invite_plan inviter guestId roomId s =
     (case rooms s roomId of
        None \<Rightarrow> Inl RoomNotExist
      | Some r \<Rightarrow>
          (case uid2sid s guestId of
             None \<Rightarrow> Inl GuestOffline
           | Some guestSId \<Rightarrow>
               if inviter \<notin> set (memberIds r) then Inl NotInRoom
               else if guestId \<in> set (memberIds r) \<or> guestId \<in> set (waitingIds r)
               then Inl AlreadyInvited
               else let r' = invite_room guestId r
                    in Inr ((r', guestSId), [SET (room_id r') r'])))"

definition invite :: "uid \<Rightarrow> uid \<Rightarrow> rid \<Rightarrow> store \<Rightarrow> error + ((room \<times> string) \<times> store)" where
  "invite inviter guestId roomId s = commit (invite_plan inviter guestId roomId s) s"

subsection \<open>respondInvitation\<close>

text \<open>The guest is spliced out of \<open>waitingIds\<close>. On acceptance with the
  multi-room flag off and the guest in some room, \<open>leaveMany\<close> runs to the end
  (its own read and pipeline) before this method's pipeline, which pushes the room
  onto the guest's index and writes back the room read at the start.\<close>

definition respondInvitation ::
  "bool \<Rightarrow> uid \<Rightarrow> bool \<Rightarrow> rid \<Rightarrow> store \<Rightarrow> error + ((room \<times> room list) \<times> store)" where
  "respondInvitation allow guestId isAccepted roomId s =
     (case get s roomId of
        Inl e \<Rightarrow> Inl e
      | Inr r \<Rightarrow>
          (let i = js_indexOf (waitingIds r) guestId in
           if i = -1 then Inl NotInvited
           else
             let r1 = r\<lparr>waitingIds := js_splice1 (waitingIds r) i\<rparr> in
             if isAccepted then
               (let (leftRooms, s1) =
                      (if \<not> allow \<and> isMemberOfAny s guestId then leaveMany guestId [] s
                       else ([], s));
                    r2 = r1\<lparr>memberIds := memberIds r1 @ [guestId]\<rparr>
                in Inr ((r2, leftRooms), exec [LPUSH guestId (room_id r2), SET (room_id r2) r2] s1))
             else
               (let r2 = r1\<lparr>refusedIds := refusedIds r1 @ [guestId]\<rparr>
                in Inr ((r2, []), exec [SET (room_id r2) r2] s))))"

subsection \<open>Outcome of each method\<close>

text \<open>When a method succeeds, and with which room and pipeline: the branches of
  each method in one equivalence, used by the invariant and the functional proofs.\<close>

lemma join_Inr:
  "join allow u k s = Inr (r', s') \<longleftrightarrow>
     (allow \<or> uid2rids s u = []) \<and>
     (\<exists>r. rooms s k = Some r \<and> isPublic r \<and> r' = join_room u r \<and>
          s' = exec [SET (room_id r') r', LPUSH u (room_id r')] s)"
  by (auto simp: join_def join_plan_def get_def isMemberOfAny_def commit_Inr_iff Let_def
      split: option.splits)

lemma leave_Inr:
  "leave u k s = Inr (r', s') \<longleftrightarrow>
     (\<exists>r cs. rooms s k = Some r \<and> u \<in> set (memberIds r) \<and>
             leave_cmds u (drop_member u r) = (r', cs) \<and> s' = exec cs s)"
  by (auto simp: leave_def leave_plan_def get_def commit_Inr_iff split: option.splits)

lemma kick_other_Inr:
  "kr \<noteq> m \<Longrightarrow> kick kr m k s = Inr (res, s') \<longleftrightarrow>
     (\<exists>r. rooms s k = Some r \<and> ownerId r = kr \<and> m \<in> set (memberIds r) \<and>
          res = Kicked (drop_member m r) (uid2sid s m) \<and>
          s' = exec [SET (room_id r) (drop_member m r), LREM m 1 (room_id r)] s)"
  by (auto simp: kick_def kick_plan_def get_def commit_Inr_iff Let_def drop_member_def
      split: option.splits)

lemma kick_self:
  "kick u u k s = (case leave u k s of Inl e \<Rightarrow> Inl e | Inr (r, s') \<Rightarrow> Inr (KickedSelf r u, s'))"
  by (auto simp: kick_def kick_plan_def leave_def commit_def split: sum.splits)

lemma transferOwnership_Inr:
  "transferOwnership ow c k s = Inr (r', s') \<longleftrightarrow>
     (\<exists>r. rooms s k = Some r \<and> ownerId r = ow \<and> ow \<noteq> c \<and> c \<in> set (memberIds r) \<and>
          r' = r\<lparr>ownerId := c\<rparr> \<and> s' = exec [SET (room_id r) r'] s)"
  by (auto simp: transferOwnership_def transferOwnership_plan_def get_def commit_Inr_iff Let_def
      split: option.splits)

lemma invite_Inr:
  "invite i g k s = Inr (res, s') \<longleftrightarrow>
     (\<exists>r sid. rooms s k = Some r \<and> uid2sid s g = Some sid \<and> i \<in> set (memberIds r) \<and>
              g \<notin> set (memberIds r) \<and> g \<notin> set (waitingIds r) \<and>
              res = (invite_room g r, sid) \<and> s' = exec [SET (room_id r) (invite_room g r)] s)"
  by (auto simp: invite_def invite_plan_def commit_Inr_iff Let_def invite_room_def
      split: option.splits)

lemma book_Inr:
  "book allow u p now s = Inr (r', s') \<longleftrightarrow>
     (allow \<or> uid2rids s u = []) \<and>
     r' = \<lparr>room_id = js_String_nat now, isPublic = p, ownerId = u, memberIds = [u],
           waitingIds = [], refusedIds = []\<rparr> \<and>
     s' = exec [SET (js_String_nat now) r', LPUSH u (js_String_nat now)] s"
  by (auto simp: book_def book_plan_def isMemberOfAny_def commit_Inr_iff Let_def)

end
