(* ===== verification/Invariant.thy ===== *)
theory Invariant
  imports RoomService
begin

text \<open>
  The invariants of spec section 3 over the model of the store, and their
  preservation by every method of RoomService. \<open>room_wf\<close> is I1 and I2 of the
  spec with the duplicate-freedom the spec's data model asks for; \<open>store_inv\<close>
  adds that a stored room sits under its own id, that no room is stored empty (I3,
  through I1), and that the reverse index \<open>UId2RIds\<close> lists exactly the rooms a
  user is a member of, each once (I4). \<open>single_room\<close> is the policy enforced
  when \<open>allowJoinMultipleRooms\<close> is off. The generic lemmas of the first
  subsection say which single-room updates of the store keep \<open>store_inv\<close>;
  each method's lemma then shows that its pipeline is one of them.
\<close>

definition room_wf :: "room \<Rightarrow> bool" where
  "room_wf r \<longleftrightarrow>
     ownerId r \<in> set (memberIds r) \<and> distinct (memberIds r) \<and> distinct (waitingIds r) \<and>
     set (memberIds r) \<inter> set (waitingIds r) = {}"

definition store_inv :: "store \<Rightarrow> bool" where
  "store_inv s \<longleftrightarrow>
     (\<forall>k r. rooms s k = Some r \<longrightarrow> room_id r = k \<and> room_wf r) \<and>
     (\<forall>u. distinct (uid2rids s u)) \<and>
     (\<forall>u k. k \<in> set (uid2rids s u) \<longleftrightarrow> (\<exists>r. rooms s k = Some r \<and> u \<in> set (memberIds r)))"

definition single_room :: "store \<Rightarrow> bool" where
  "single_room s \<longleftrightarrow> (\<forall>u. length (uid2rids s u) \<le> 1)"

lemma store_invD:
  assumes "store_inv s"
  shows "rooms s k = Some r \<Longrightarrow> room_id r = k"
    and "rooms s k = Some r \<Longrightarrow> room_wf r"
    and "distinct (uid2rids s u)"
    and "k \<in> set (uid2rids s u) \<longleftrightarrow> (\<exists>r. rooms s k = Some r \<and> u \<in> set (memberIds r))"
  using assms by (auto simp: store_inv_def)

lemma store_inv_index_member:
  "store_inv s \<Longrightarrow> rooms s k = Some r \<Longrightarrow> k \<in> set (uid2rids s u) \<longleftrightarrow> u \<in> set (memberIds r)"
  by (simp add: store_invD(4))

lemma room_wf_members_nonempty: "room_wf r \<Longrightarrow> memberIds r \<noteq> []"
  by (auto simp: room_wf_def)

lemma store_inv_empty: "store_inv (empty_store sids)"
  by (simp add: store_inv_def empty_store_def)

lemma single_room_empty: "single_room (empty_store sids)"
  by (simp add: single_room_def empty_store_def)

text \<open>Under the single-room policy a member's index holds exactly its room.\<close>

lemma single_room_index:
  assumes "store_inv s" and "single_room s" and "rooms s k = Some r" and "u \<in> set (memberIds r)"
  shows "uid2rids s u = [k]"
proof -
  have "k \<in> set (uid2rids s u)" using store_inv_index_member [OF assms(1,3)] assms(4) by simp
  moreover have "length (uid2rids s u) \<le> 1" using assms(2) by (simp add: single_room_def)
  ultimately show ?thesis by (cases "uid2rids s u") auto
qed

lemma single_room_index_Cons:
  assumes "store_inv s" and "single_room s" and "uid2rids s u = k # ks"
  shows "ks = [] \<and> (\<exists>r. rooms s k = Some r \<and> u \<in> set (memberIds r))"
proof -
  have "length (uid2rids s u) \<le> 1" using assms(2) by (simp add: single_room_def)
  with assms(3) store_invD(4) [OF assms(1), of k u] show ?thesis by auto
qed

subsection \<open>Updates of one room that keep the invariant\<close>

lemma inv_same_members:
  assumes inv: "store_inv s" and r: "rooms s k = Some r"
    and wf: "room_wf r'" and id: "room_id r' = k"
    and mem: "set (memberIds r') = set (memberIds r)"
    and rs: "rooms s' = (rooms s)(k \<mapsto> r')" and ix: "uid2rids s' = uid2rids s"
  shows "store_inv s'"
  unfolding store_inv_def
proof (intro conjI allI impI)
  fix k1 r1 assume "rooms s' k1 = Some r1"
  with inv wf id rs show "room_id r1 = k1" and "room_wf r1"
    by (auto simp: store_inv_def split: if_splits)
next
  fix u show "distinct (uid2rids s' u)" using inv ix by (simp add: store_inv_def)
next
  fix u k1
  show "k1 \<in> set (uid2rids s' u) \<longleftrightarrow> (\<exists>r1. rooms s' k1 = Some r1 \<and> u \<in> set (memberIds r1))"
    using store_invD(4) [OF inv, of k1 u] r mem rs ix by auto
qed

lemma inv_add_member:
  assumes inv: "store_inv s" and r: "rooms s k = Some r"
    and wf: "room_wf r'" and id: "room_id r' = k"
    and mem: "set (memberIds r') = insert u (set (memberIds r))"
    and new: "u \<notin> set (memberIds r)"
    and rs: "rooms s' = (rooms s)(k \<mapsto> r')"
    and ix: "uid2rids s' = (uid2rids s)(u := k # uid2rids s u)"
  shows "store_inv s'"
  unfolding store_inv_def
proof (intro conjI allI impI)
  fix k1 r1 assume "rooms s' k1 = Some r1"
  with inv wf id rs show "room_id r1 = k1" and "room_wf r1"
    by (auto simp: store_inv_def split: if_splits)
next
  have "k \<notin> set (uid2rids s u)" using store_inv_index_member [OF inv r] new by simp
  then show "distinct (uid2rids s' u1)" for u1 using inv ix by (simp add: store_inv_def)
next
  fix u1 k1
  show "k1 \<in> set (uid2rids s' u1) \<longleftrightarrow> (\<exists>r1. rooms s' k1 = Some r1 \<and> u1 \<in> set (memberIds r1))"
    using store_invD(4) [OF inv, of k1 u1] r mem rs ix by auto
qed

lemma inv_remove_member:
  assumes inv: "store_inv s" and r: "rooms s k = Some r"
    and wf: "room_wf r'" and id: "room_id r' = k"
    and mem: "set (memberIds r') = set (memberIds r) - {u}"
    and rs: "rooms s' = (rooms s)(k \<mapsto> r')"
    and ix: "uid2rids s' = (uid2rids s)(u := remove1 k (uid2rids s u))"
  shows "store_inv s'"
  unfolding store_inv_def
proof (intro conjI allI impI)
  fix k1 r1 assume "rooms s' k1 = Some r1"
  with inv wf id rs show "room_id r1 = k1" and "room_wf r1"
    by (auto simp: store_inv_def split: if_splits)
next
  show "distinct (uid2rids s' u1)" for u1 using inv ix by (simp add: store_inv_def)
next
  fix u1 k1
  show "k1 \<in> set (uid2rids s' u1) \<longleftrightarrow> (\<exists>r1. rooms s' k1 = Some r1 \<and> u1 \<in> set (memberIds r1))"
  proof (cases "u1 = u")
    case True
    have "distinct (uid2rids s u)" using store_invD(3) [OF inv] .
    with ix True have "set (uid2rids s' u1) = set (uid2rids s u) - {k}" by simp
    then show ?thesis using store_invD(4) [OF inv, of k1 u] r mem rs True by auto
  next
    case False
    with ix have "uid2rids s' u1 = uid2rids s u1" by simp
    then show ?thesis using store_invD(4) [OF inv, of k1 u1] r mem rs False by auto
  qed
qed

lemma inv_delete_room:
  assumes inv: "store_inv s" and r: "rooms s k = Some r"
    and mem: "set (memberIds r) = {u}"
    and rs: "rooms s' = (rooms s)(k := None)"
    and ix: "uid2rids s' = (uid2rids s)(u := remove1 k (uid2rids s u))"
  shows "store_inv s'"
  unfolding store_inv_def
proof (intro conjI allI impI)
  fix k1 r1 assume "rooms s' k1 = Some r1"
  with inv rs show "room_id r1 = k1" and "room_wf r1"
    by (auto simp: store_inv_def split: if_splits)
next
  show "distinct (uid2rids s' u1)" for u1 using inv ix by (simp add: store_inv_def)
next
  fix u1 k1
  have d: "distinct (uid2rids s u1)" using store_invD(3) [OF inv] .
  show "k1 \<in> set (uid2rids s' u1) \<longleftrightarrow> (\<exists>r1. rooms s' k1 = Some r1 \<and> u1 \<in> set (memberIds r1))"
    using store_invD(4) [OF inv, of k1 u1] r mem rs ix d by auto
qed

lemma inv_new_room:
  assumes inv: "store_inv s" and fresh: "rooms s k = None"
    and wf: "room_wf r'" and id: "room_id r' = k" and mem: "memberIds r' = [u]"
    and rs: "rooms s' = (rooms s)(k \<mapsto> r')"
    and ix: "uid2rids s' = (uid2rids s)(u := k # uid2rids s u)"
  shows "store_inv s'"
  unfolding store_inv_def
proof (intro conjI allI impI)
  fix k1 r1 assume "rooms s' k1 = Some r1"
  with inv wf id rs show "room_id r1 = k1" and "room_wf r1"
    by (auto simp: store_inv_def split: if_splits)
next
  have "k \<notin> set (uid2rids s u)" using store_invD(4) [OF inv, of k u] fresh by simp
  then show "distinct (uid2rids s' u1)" for u1 using inv ix by (simp add: store_inv_def)
next
  fix u1 k1
  show "k1 \<in> set (uid2rids s' u1) \<longleftrightarrow> (\<exists>r1. rooms s' k1 = Some r1 \<and> u1 \<in> set (memberIds r1))"
    using store_invD(4) [OF inv, of k1 u1] fresh mem rs ix by auto
qed

subsection \<open>Room-level facts of the service's transformations\<close>

lemma drop_member_present:
  "u \<in> set (memberIds r) \<Longrightarrow> memberIds (drop_member u r) = remove1 u (memberIds r)"
  by (simp add: drop_member_def js_splice1_indexOf_present)

lemma drop_member_other_fields [simp]:
  "room_id (drop_member u r) = room_id r" "ownerId (drop_member u r) = ownerId r"
  "waitingIds (drop_member u r) = waitingIds r" "isPublic (drop_member u r) = isPublic r"
  by (simp_all add: drop_member_def)

lemma room_wf_join_room:
  assumes wf: "room_wf r" and new: "u \<notin> set (memberIds r)"
  shows "room_wf (join_room u r)"
proof -
  let ?w = "js_splice1 (waitingIds r) (js_indexOf (waitingIds r) u)"
  have dw: "distinct (waitingIds r)" using wf by (simp add: room_wf_def)
  have sub: "set ?w \<subseteq> set (waitingIds r)" by (rule js_splice1_indexOf_subset)
  have gone: "u \<notin> set ?w" using dw by (rule js_splice1_indexOf_gone)
  have "distinct ?w" using dw by (rule js_splice1_indexOf_distinct)
  with wf new sub gone show ?thesis
    by (auto simp: room_wf_def join_room_def Let_def)
qed

lemma room_wf_invite_room:
  assumes wf: "room_wf r" and g: "g \<notin> set (memberIds r)" "g \<notin> set (waitingIds r)"
  shows "room_wf (invite_room g r)"
  using assms by (auto simp: room_wf_def invite_room_def Let_def)

lemma room_wf_drop_owner_kept:
  assumes wf: "room_wf r" and u: "u \<in> set (memberIds r)" and o: "u \<noteq> ownerId r"
  shows "room_wf (drop_member u r)"
  using assms by (auto simp: room_wf_def drop_member_present mem_remove1_other)

lemma room_wf_leave_owner_moved:
  assumes wf: "room_wf r" and u: "u \<in> set (memberIds r)"
    and ne: "memberIds (drop_member u r) \<noteq> []"
  shows "room_wf ((drop_member u r)\<lparr>ownerId := hd (memberIds (drop_member u r))\<rparr>)"
proof -
  have d: "distinct (memberIds r)" using wf by (simp add: room_wf_def)
  have "hd (memberIds (drop_member u r)) \<in> set (memberIds (drop_member u r))"
    using ne by (rule hd_in_set_nonempty)
  then have "hd (memberIds (drop_member u r)) \<in> set (memberIds r) - {u}"
    using d u by (simp add: drop_member_present)
  with wf u show ?thesis by (auto simp: room_wf_def drop_member_present)
qed

subsection \<open>Removing one member: the pipeline of leave and of each room of leaveMany\<close>

lemma leave_cmds_step:
  assumes inv: "store_inv s" and r: "rooms s k = Some r" and u: "u \<in> set (memberIds r)"
    and lc: "leave_cmds u (drop_member u r) = (r', cs)"
  shows "store_inv (exec cs s) \<and>
         uid2rids (exec cs s) = (uid2rids s)(u := remove1 k (uid2rids s u)) \<and>
         (\<forall>k'. k' \<noteq> k \<longrightarrow> rooms (exec cs s) k' = rooms s k')"
proof -
  let ?d = "drop_member u r"
  have wf: "room_wf r" and id: "room_id r = k" using store_invD(1,2) [OF inv r] by auto
  have dist: "distinct (memberIds r)" using wf by (simp add: room_wf_def)
  have setd: "set (memberIds ?d) = set (memberIds r) - {u}"
    using u dist by (simp add: drop_member_present)
  show ?thesis
  proof (cases "memberIds ?d = []")
    case True
    with lc id have cs: "cs = [DEL k, LREM u 1 k]" by (simp add: leave_cmds_def)
    from True setd u have "set (memberIds r) = {u}" by auto
    from inv_delete_room [OF inv r this] cs show ?thesis by simp
  next
    case False
    define r'' where
      "r'' = ?d\<lparr>ownerId := (if u = ownerId ?d then hd (memberIds ?d) else ownerId ?d)\<rparr>"
    from lc False have cs: "cs = [SET (room_id r'') r'', LREM u 1 (room_id r'')]"
      by (auto simp: leave_cmds_def Let_def r''_def)
    have id'': "room_id r'' = k" by (simp add: r''_def id)
    have wf'': "room_wf r''"
    proof (cases "u = ownerId r")
      case True
      then show ?thesis using room_wf_leave_owner_moved [OF wf u False] by (simp add: r''_def)
    next
      case False
      then show ?thesis using room_wf_drop_owner_kept [OF wf u] by (simp add: r''_def room_wf_def)
    qed
    have "set (memberIds r'') = set (memberIds r) - {u}" by (simp add: r''_def setd)
    from inv_remove_member [OF inv r wf'' id'' this] cs id'' show ?thesis by simp
  qed
qed

subsection \<open>Each method keeps the invariant\<close>

lemma leave_inv: "store_inv s \<Longrightarrow> leave u k s = Inr (r', s') \<Longrightarrow> store_inv s'"
  by (auto simp: leave_Inr dest: leave_cmds_step)

lemma book_inv:
  assumes inv: "store_inv s" and fresh: "rooms s (js_String_nat now) = None"
    and ok: "book allow u p now s = Inr (r', s')"
  shows "store_inv s'"
proof -
  let ?k = "js_String_nat now"
  from ok have r': "r' = \<lparr>room_id = ?k, isPublic = p, ownerId = u, memberIds = [u],
      waitingIds = [], refusedIds = []\<rparr>" and s': "s' = exec [SET ?k r', LPUSH u ?k] s"
    by (simp_all add: book_Inr)
  have "room_wf r'" by (simp add: r' room_wf_def)
  from inv_new_room [OF inv fresh this] r' s' show ?thesis by simp
qed

lemma join_inv:
  assumes inv: "store_inv s" and ok: "join allow u k s = Inr (r', s')"
    and fresh_member: "allow \<longrightarrow> k \<notin> set (uid2rids s u)"
  shows "store_inv s'"
proof -
  from ok obtain r where r: "rooms s k = Some r" and g: "\<not> allow \<longrightarrow> uid2rids s u = []"
    and r': "r' = join_room u r" and s': "s' = exec [SET (room_id r') r', LPUSH u (room_id r')] s"
    by (auto simp: join_Inr)
  have wf: "room_wf r" and id: "room_id r = k" using store_invD(1,2) [OF inv r] by auto
  have new: "u \<notin> set (memberIds r)"
    using fresh_member g store_inv_index_member [OF inv r, of u] by (cases allow) auto
  have id': "room_id r' = k" by (simp add: r' join_room_def Let_def id)
  have "set (memberIds r') = insert u (set (memberIds r))" by (simp add: r' join_room_def Let_def)
  from inv_add_member [OF inv r _ id' this new] room_wf_join_room [OF wf new] r' s' id'
  show ?thesis by simp
qed

lemma kick_inv:
  assumes inv: "store_inv s" and ok: "kick kr m k s = Inr (res, s')"
  shows "store_inv s'"
proof (cases "kr = m")
  case True
  with ok obtain r' where "leave kr k s = Inr (r', s')"
    by (auto simp: kick_self split: sum.splits)
  with inv show ?thesis by (rule leave_inv)
next
  case False
  with ok obtain r where r: "rooms s k = Some r" and own: "ownerId r = kr"
    and m: "m \<in> set (memberIds r)"
    and s': "s' = exec [SET (room_id r) (drop_member m r), LREM m 1 (room_id r)] s"
    by (auto simp: kick_other_Inr)
  have wf: "room_wf r" and id: "room_id r = k" using store_invD(1,2) [OF inv r] by auto
  have "m \<noteq> ownerId r" using False own by simp
  have wf': "room_wf (drop_member m r)" by (rule room_wf_drop_owner_kept [OF wf m \<open>m \<noteq> ownerId r\<close>])
  have "set (memberIds (drop_member m r)) = set (memberIds r) - {m}"
    using wf m by (simp add: drop_member_present room_wf_def)
  from inv_remove_member [OF inv r wf' _ this] s' id show ?thesis by simp
qed

lemma transferOwnership_inv:
  assumes inv: "store_inv s" and ok: "transferOwnership ow c k s = Inr (r', s')"
  shows "store_inv s'"
proof -
  from ok obtain r where r: "rooms s k = Some r" and c: "c \<in> set (memberIds r)"
    and r': "r' = r\<lparr>ownerId := c\<rparr>" and s': "s' = exec [SET (room_id r) r'] s"
    by (auto simp: transferOwnership_Inr)
  have wf: "room_wf r" and id: "room_id r = k" using store_invD(1,2) [OF inv r] by auto
  with c r' have "room_wf r'" by (simp add: room_wf_def)
  from inv_same_members [OF inv r this] r' s' id show ?thesis by simp
qed

lemma invite_inv:
  assumes inv: "store_inv s" and ok: "invite i g k s = Inr (res, s')"
  shows "store_inv s'"
proof -
  from ok obtain r where r: "rooms s k = Some r" and g: "g \<notin> set (memberIds r)" "g \<notin> set (waitingIds r)"
    and s': "s' = exec [SET (room_id r) (invite_room g r)] s"
    by (auto simp: invite_Inr)
  have wf: "room_wf r" and id: "room_id r = k" using store_invD(1,2) [OF inv r] by auto
  have "room_wf (invite_room g r)" by (rule room_wf_invite_room [OF wf g])
  from inv_same_members [OF inv r this] s' id show ?thesis
    by (simp add: invite_room_def Let_def)
qed

subsection \<open>leaveMany and respondInvitation\<close>

lemma getMany_cong:
  "(\<And>k. k \<in> set ks \<Longrightarrow> rooms s k = rooms s' k) \<Longrightarrow> getMany s ks = getMany s' ks"
  by (induction ks) (auto split: option.splits)

lemma leave_each_Cons_cmds:
  "snd (leave_each u (r # rs)) = snd (leave_cmds u (drop_member u r)) @ snd (leave_each u rs)"
  by (simp add: split_def Let_def)

text \<open>The pipeline \<open>leaveMany\<close> queues for distinct rooms of the leaver's
  index removes the leaver from exactly those rooms and index entries.\<close>

lemma leave_each_getMany:
  assumes "store_inv s" "distinct ks" "set ks \<subseteq> set (uid2rids s u)"
  shows "store_inv (exec (snd (leave_each u (getMany s ks))) s) \<and>
         set (uid2rids (exec (snd (leave_each u (getMany s ks))) s) u) = set (uid2rids s u) - set ks \<and>
         (\<forall>v. v \<noteq> u \<longrightarrow> uid2rids (exec (snd (leave_each u (getMany s ks))) s) v = uid2rids s v) \<and>
         (\<forall>k. k \<notin> set ks \<longrightarrow> rooms (exec (snd (leave_each u (getMany s ks))) s) k = rooms s k)"
  using assms
proof (induction ks arbitrary: s)
  case Nil
  then show ?case by simp
next
  case (Cons k ks)
  from Cons.prems(3) have "k \<in> set (uid2rids s u)" by simp
  then obtain r where r: "rooms s k = Some r" and u: "u \<in> set (memberIds r)"
    using store_invD(4) [OF Cons.prems(1)] by blast
  obtain r' cs where lc: "leave_cmds u (drop_member u r) = (r', cs)" by fastforce
  define s1 where "s1 = exec cs s"
  have step: "store_inv s1 \<and> uid2rids s1 = (uid2rids s)(u := remove1 k (uid2rids s u)) \<and>
      (\<forall>k'. k' \<noteq> k \<longrightarrow> rooms s1 k' = rooms s k')"
    unfolding s1_def by (rule leave_cmds_step [OF Cons.prems(1) r u lc])
  have kn: "k \<notin> set ks" using Cons.prems(2) by simp
  have same: "getMany s ks = getMany s1 ks"
    using step kn by (intro getMany_cong) auto
  have d: "distinct (uid2rids s u)" using store_invD(3) [OF Cons.prems(1)] .
  have sub: "set ks \<subseteq> set (uid2rids s1 u)" using step Cons.prems(3) kn d by auto
  have gm: "getMany s (k # ks) = r # getMany s1 ks" using r same by simp
  have "exec (snd (leave_each u (getMany s (k # ks)))) s = exec (snd (leave_each u (getMany s1 ks))) s1"
    unfolding gm leave_each_Cons_cmds lc by (simp add: exec_append s1_def)
  with Cons.IH [of s1] step Cons.prems(2) sub d show ?case by auto
qed

lemma leaveMany_all:
  assumes inv: "store_inv s" and lm: "leaveMany u [] s = (rs, s')"
  shows "store_inv s' \<and> uid2rids s' u = [] \<and> (\<forall>v. v \<noteq> u \<longrightarrow> uid2rids s' v = uid2rids s v) \<and>
         (\<forall>k. k \<notin> set (uid2rids s u) \<longrightarrow> rooms s' k = rooms s k)"
proof (cases "uid2rids s u = []")
  case True
  with lm inv show ?thesis by (simp add: leaveMany_def leaveMany_plan_def)
next
  case False
  let ?ks = "uid2rids s u"
  have s': "s' = exec (snd (leave_each u (getMany s ?ks))) s"
    using lm False by (simp add: leaveMany_def leaveMany_plan_def split_def Let_def)
  have "distinct ?ks" using store_invD(3) [OF inv] .
  from leave_each_getMany [OF inv this subset_refl] s' show ?thesis by simp
qed

text \<open>The outcome of respondInvitation in the form the invariant proofs use: the
  invited room before the call, and the store the final pipeline is written to.\<close>

lemma respondInvitation_Inr:
  assumes ok: "respondInvitation allow g acc k s = Inr (res, s')"
  obtains r where "rooms s k = Some r" and "g \<in> set (waitingIds r)"
    and "acc \<Longrightarrow> s' = exec [LPUSH g (room_id r),
            SET (room_id r) (r\<lparr>waitingIds := remove1 g (waitingIds r), memberIds := memberIds r @ [g]\<rparr>)]
          (if \<not> allow \<and> isMemberOfAny s g then snd (leaveMany g [] s) else s)"
    and "\<not> acc \<Longrightarrow> s' = exec [SET (room_id r)
            (r\<lparr>waitingIds := remove1 g (waitingIds r), refusedIds := refusedIds r @ [g]\<rparr>)] s"
proof -
  from ok obtain r where r: "rooms s k = Some r" and g: "g \<in> set (waitingIds r)"
    by (auto simp: respondInvitation_def get_def Let_def split: option.splits if_splits)
  have sp: "js_splice1 (waitingIds r) (js_indexOf (waitingIds r) g) = remove1 g (waitingIds r)"
    using g by (rule js_splice1_indexOf_present)
  show ?thesis
  proof (rule that [OF r g])
    assume acc
    with ok r g show "s' = exec [LPUSH g (room_id r),
            SET (room_id r) (r\<lparr>waitingIds := remove1 g (waitingIds r), memberIds := memberIds r @ [g]\<rparr>)]
          (if \<not> allow \<and> isMemberOfAny s g then snd (leaveMany g [] s) else s)"
      by (auto simp: respondInvitation_def get_def Let_def sp split: prod.splits if_splits)
  next
    assume "\<not> acc"
    with ok r g show "s' = exec [SET (room_id r)
            (r\<lparr>waitingIds := remove1 g (waitingIds r), refusedIds := refusedIds r @ [g]\<rparr>)] s"
      by (auto simp: respondInvitation_def get_def Let_def sp)
  qed
qed

lemma respondInvitation_inv:
  assumes inv: "store_inv s" and ok: "respondInvitation allow g acc k s = Inr (res, s')"
  shows "store_inv s'"
proof -
  obtain r where r: "rooms s k = Some r" and g: "g \<in> set (waitingIds r)"
    and acc_s': "acc \<Longrightarrow> s' = exec [LPUSH g (room_id r),
            SET (room_id r) (r\<lparr>waitingIds := remove1 g (waitingIds r), memberIds := memberIds r @ [g]\<rparr>)]
          (if \<not> allow \<and> isMemberOfAny s g then snd (leaveMany g [] s) else s)"
    and dec_s': "\<not> acc \<Longrightarrow> s' = exec [SET (room_id r)
            (r\<lparr>waitingIds := remove1 g (waitingIds r), refusedIds := refusedIds r @ [g]\<rparr>)] s"
    using respondInvitation_Inr [OF ok] by blast
  have wf: "room_wf r" and id: "room_id r = k" using store_invD(1,2) [OF inv r] by auto
  have notmem: "g \<notin> set (memberIds r)" using wf g by (auto simp: room_wf_def)
  show ?thesis
  proof (cases acc)
    case False
    let ?r2 = "r\<lparr>waitingIds := remove1 g (waitingIds r), refusedIds := refusedIds r @ [g]\<rparr>"
    have "room_wf ?r2" using wf by (auto simp: room_wf_def dest: set_remove1_subset [THEN subsetD])
    from inv_same_members [OF inv r this] dec_s' [OF False] id show ?thesis by simp
  next
    case True
    define s1 where "s1 = (if \<not> allow \<and> isMemberOfAny s g then snd (leaveMany g [] s) else s)"
    have s1: "store_inv s1 \<and> rooms s1 k = rooms s k"
    proof (cases "\<not> allow \<and> isMemberOfAny s g")
      case True
      obtain rs s2 where lm: "leaveMany g [] s = (rs, s2)" by fastforce
      have "k \<notin> set (uid2rids s g)" using store_inv_index_member [OF inv r] notmem by simp
      with leaveMany_all [OF inv lm] True show ?thesis by (simp add: s1_def lm)
    next
      case False
      then have "s1 = s" unfolding s1_def by (rule if_not_P)
      with inv show ?thesis by simp
    qed
    let ?r2 = "r\<lparr>waitingIds := remove1 g (waitingIds r), memberIds := memberIds r @ [g]\<rparr>"
    have dw: "distinct (waitingIds r)" using wf by (simp add: room_wf_def)
    have "room_wf ?r2" using wf notmem dw by (auto simp: room_wf_def dest: set_remove1_subset [THEN subsetD])
    moreover have "rooms s1 k = Some r" using s1 r by simp
    ultimately show ?thesis
      using inv_add_member [of s1 k r ?r2 g s'] s1 notmem acc_s' [OF True] id
      by (simp add: s1_def [symmetric])
  qed
qed

subsection \<open>The single-room policy\<close>

lemma single_room_upd:
  "single_room s \<Longrightarrow> length xs \<le> 1 \<Longrightarrow> uid2rids s' = (uid2rids s)(u := xs) \<Longrightarrow> single_room s'"
  by (simp add: single_room_def)

lemma single_room_same_index:
  "single_room s \<Longrightarrow> uid2rids s' = uid2rids s \<Longrightarrow> single_room s'"
  by (simp add: single_room_def)

lemma book_single_room:
  "\<not> allow \<Longrightarrow> single_room s \<Longrightarrow> book allow u p now s = Inr (r', s') \<Longrightarrow> single_room s'"
  by (auto simp: book_Inr single_room_def)

lemma join_single_room:
  assumes "\<not> allow" "single_room s" and ok: "join allow u k s = Inr (r', s')"
  shows "single_room s'"
proof -
  from ok assms(1) have "uid2rids s u = []"
    and "uid2rids s' = (uid2rids s)(u := room_id r' # uid2rids s u)"
    by (auto simp: join_Inr)
  then have ix: "uid2rids s' = (uid2rids s)(u := [room_id r'])" by simp
  show ?thesis by (rule single_room_upd [OF assms(2) _ ix]) simp
qed

lemma leave_single_room:
  assumes inv: "store_inv s" and sr: "single_room s" and ok: "leave u k s = Inr (r', s')"
  shows "single_room s'"
proof -
  from ok obtain r cs where r: "rooms s k = Some r" and u: "u \<in> set (memberIds r)"
    and lc: "leave_cmds u (drop_member u r) = (r', cs)" and s': "s' = exec cs s"
    by (auto simp: leave_Inr)
  from leave_cmds_step [OF inv r u lc] s' have "uid2rids s' = (uid2rids s)(u := remove1 k (uid2rids s u))"
    by simp
  moreover have "length (remove1 k (uid2rids s u)) \<le> 1"
    using sr length_remove1 [of k "uid2rids s u"] by (simp add: single_room_def)
  ultimately show ?thesis using sr by (intro single_room_upd [OF sr]) simp_all
qed

lemma kick_single_room:
  assumes inv: "store_inv s" and sr: "single_room s" and ok: "kick kr m k s = Inr (res, s')"
  shows "single_room s'"
proof (cases "kr = m")
  case True
  with ok obtain r' where "leave kr k s = Inr (r', s')"
    by (auto simp: kick_self split: sum.splits)
  with inv sr show ?thesis by (rule leave_single_room)
next
  case False
  with ok obtain k' where "uid2rids s' = (uid2rids s)(m := remove1 k' (uid2rids s m))"
    by (auto simp: kick_other_Inr)
  moreover have "length (remove1 k' (uid2rids s m)) \<le> 1"
    using sr length_remove1 [of k' "uid2rids s m"] by (simp add: single_room_def)
  ultimately show ?thesis using sr by (intro single_room_upd [OF sr]) simp_all
qed

lemma transferOwnership_single_room:
  "single_room s \<Longrightarrow> transferOwnership ow c k s = Inr (r', s') \<Longrightarrow> single_room s'"
  by (erule single_room_same_index) (auto simp: transferOwnership_Inr)

lemma invite_single_room:
  "single_room s \<Longrightarrow> invite i g k s = Inr (res, s') \<Longrightarrow> single_room s'"
  by (erule single_room_same_index) (auto simp: invite_Inr)

lemma respondInvitation_single_room:
  assumes inv: "store_inv s" and na: "\<not> allow" and sr: "single_room s"
    and ok: "respondInvitation allow g acc k s = Inr (res, s')"
  shows "single_room s'"
proof -
  obtain r where acc_s': "acc \<Longrightarrow> s' = exec [LPUSH g (room_id r),
            SET (room_id r) (r\<lparr>waitingIds := remove1 g (waitingIds r), memberIds := memberIds r @ [g]\<rparr>)]
          (if \<not> allow \<and> isMemberOfAny s g then snd (leaveMany g [] s) else s)"
    and dec_s': "\<not> acc \<Longrightarrow> s' = exec [SET (room_id r)
            (r\<lparr>waitingIds := remove1 g (waitingIds r), refusedIds := refusedIds r @ [g]\<rparr>)] s"
    using respondInvitation_Inr [OF ok] by blast
  show ?thesis
  proof (cases acc)
    case False
    with dec_s' sr show ?thesis by (simp add: single_room_def)
  next
    case True
    define s1 where "s1 = (if \<not> allow \<and> isMemberOfAny s g then snd (leaveMany g [] s) else s)"
    have s1: "uid2rids s1 g = [] \<and> (\<forall>v. v \<noteq> g \<longrightarrow> uid2rids s1 v = uid2rids s v)"
    proof (cases "isMemberOfAny s g")
      case True
      obtain rs s2 where lm: "leaveMany g [] s = (rs, s2)" by fastforce
      from leaveMany_all [OF inv lm] na True show ?thesis by (simp add: s1_def lm)
    next
      case False
      with na show ?thesis by (simp add: s1_def isMemberOfAny_def)
    qed
    have ix: "uid2rids s' = (uid2rids s)(g := [room_id r])"
      using acc_s' [OF True] s1 by (auto simp: s1_def [symmetric])
    show ?thesis by (rule single_room_upd [OF sr _ ix]) simp
  qed
qed

end
