(* ===== verification/Coordinator.thy ===== *)
theory Coordinator
  imports Invariant
begin

text \<open>
  The room coordinator as a state machine. \<open>op\<close> is the datatype of the calls
  the service offers to its callers, one constructor per public method of
  \<open>RoomService\<close> that writes; \<open>step\<close> runs one of them to completion against the
  store, as a single request handler does when no other handler interleaves. The
  reachable states start from an empty store and take steps of three kinds: a call
  that succeeds (a rejected call leaves the store as it was), the clock advancing, and
  the session layer changing the socket table \<open>UID2SId\<close>. Every call takes one
  tick of the clock, so two calls never read the same \<open>Date.now()\<close>: this is the
  assumption under which \<open>book\<close> produces fresh room ids, and the theory proves
  that under it the ids are fresh.
\<close>

subsection \<open>Definitions\<close>

datatype op =
    Book uid bool
  | Join uid rid
  | Leave uid rid
  | LeaveAll uid
  | Kick uid uid rid
  | TransferOwnership uid uid rid
  | Invite uid uid rid
  | RespondInvitation uid bool rid

definition store_of :: "error + ('a \<times> store) \<Rightarrow> error + store" where
  "store_of x = (case x of Inl e \<Rightarrow> Inl e | Inr (_, s) \<Rightarrow> Inr s)"

fun step :: "bool \<Rightarrow> nat \<Rightarrow> op \<Rightarrow> store \<Rightarrow> error + store" where
  "step allow now (Book u p) s = store_of (book allow u p now s)"
| "step allow now (Join u k) s = store_of (join allow u k s)"
| "step allow now (Leave u k) s = store_of (leave u k s)"
| "step allow now (LeaveAll u) s = Inr (snd (leaveMany u [] s))"
| "step allow now (Kick kr m k) s = store_of (kick kr m k s)"
| "step allow now (TransferOwnership ow c k) s = store_of (transferOwnership ow c k s)"
| "step allow now (Invite i g k) s = store_of (invite i g k s)"
| "step allow now (RespondInvitation g acc k) s = store_of (respondInvitation allow g acc k s)"

inductive reachable :: "bool \<Rightarrow> store \<Rightarrow> nat \<Rightarrow> bool" for allow where
  init: "reachable allow (empty_store sids) t"
| call: "reachable allow s t \<Longrightarrow> step allow t a s = Inr s' \<Longrightarrow> reachable allow s' (Suc t)"
| tick: "reachable allow s t \<Longrightarrow> t \<le> t' \<Longrightarrow> reachable allow s t'"
| session: "reachable allow s t \<Longrightarrow> reachable allow (s\<lparr>uid2sid := sids\<rparr>) t"

definition keys_before :: "store \<Rightarrow> nat \<Rightarrow> bool" where
  "keys_before s t \<longleftrightarrow> (\<forall>k. rooms s k \<noteq> None \<longrightarrow> (\<exists>n<t. k = js_String_nat n))"

definition rooms_sub :: "store \<Rightarrow> store \<Rightarrow> bool" where
  "rooms_sub s s' \<longleftrightarrow> (\<forall>k. rooms s' k \<noteq> None \<longrightarrow> rooms s k \<noteq> None)"

definition sys_inv :: "bool \<Rightarrow> store \<Rightarrow> nat \<Rightarrow> bool" where
  "sys_inv allow s t \<longleftrightarrow> store_inv s \<and> (\<not> allow \<longrightarrow> single_room s) \<and> keys_before s t"

subsection \<open>Calls\<close>

lemma store_of_Inr: "store_of x = Inr s' \<longleftrightarrow> (\<exists>a. x = Inr (a, s'))"
  by (auto simp: store_of_def split: sum.splits)

text \<open>Which method succeeded in a successful step, and with what result.\<close>

lemma step_InrE:
  assumes "step allow t a s = Inr s'"
  obtains (Book) u p r where "a = Book u p" "book allow u p t s = Inr (r, s')"
  | (Join) u k r where "a = Join u k" "join allow u k s = Inr (r, s')"
  | (Leave) u k r where "a = Leave u k" "leave u k s = Inr (r, s')"
  | (LeaveAll) u rs where "a = LeaveAll u" "leaveMany u [] s = (rs, s')"
  | (Kick) kr m k res where "a = Kick kr m k" "kick kr m k s = Inr (res, s')"
  | (TransferOwnership) ow c k r where "a = TransferOwnership ow c k" "transferOwnership ow c k s = Inr (r, s')"
  | (Invite) i g k res where "a = Invite i g k" "invite i g k s = Inr (res, s')"
  | (RespondInvitation) g acc k res where "a = RespondInvitation g acc k"
      "respondInvitation allow g acc k s = Inr (res, s')"
proof (cases a)
  case (LeaveAll u)
  with assms have "leaveMany u [] s = (fst (leaveMany u [] s), s')" by (cases "leaveMany u [] s") simp
  with LeaveAll show ?thesis by (rule that(4))
qed (use assms that in \<open>auto simp: store_of_Inr\<close>)

subsection \<open>Room ids come from earlier clock values\<close>

lemma keys_before_fresh: "keys_before s t \<Longrightarrow> rooms s (js_String_nat t) = None"
  by (auto simp: keys_before_def js_String_nat_inj)

lemma keys_before_mono: "keys_before s t \<Longrightarrow> t \<le> t' \<Longrightarrow> keys_before s t'"
  unfolding keys_before_def by (meson less_le_trans)

lemma keys_before_sub: "keys_before s t \<Longrightarrow> rooms_sub s s' \<Longrightarrow> keys_before s' (Suc t)"
  unfolding keys_before_def rooms_sub_def by (meson less_SucI)

lemma keys_before_book:
  assumes kb: "keys_before s t" and rs: "rooms s' = (rooms s)(js_String_nat t \<mapsto> r)"
  shows "keys_before s' (Suc t)"
  unfolding keys_before_def
proof (intro allI impI)
  fix k assume k: "rooms s' k \<noteq> None"
  show "\<exists>n<Suc t. k = js_String_nat n"
  proof (cases "k = js_String_nat t")
    case True
    then show ?thesis by blast
  next
    case False
    with rs k have "rooms s k \<noteq> None" by simp
    with kb obtain n where "n < t" "k = js_String_nat n" by (auto simp: keys_before_def)
    then show ?thesis using less_SucI by blast
  qed
qed

lemma rooms_sub_upd: "rooms s k \<noteq> None \<Longrightarrow> rooms s' = (rooms s)(k \<mapsto> r) \<Longrightarrow> rooms_sub s s'"
  by (simp add: rooms_sub_def)

lemma rooms_sub_trans: "rooms_sub s s1 \<Longrightarrow> rooms_sub s1 s2 \<Longrightarrow> rooms_sub s s2"
  by (simp add: rooms_sub_def)

lemma leaveMany_rooms_sub:
  assumes inv: "store_inv s" and lm: "leaveMany u [] s = (rs, s')"
  shows "rooms_sub s s'"
  unfolding rooms_sub_def
proof (intro allI impI)
  fix k assume k: "rooms s' k \<noteq> None"
  show "rooms s k \<noteq> None"
  proof (cases "k \<in> set (uid2rids s u)")
    case True
    then show ?thesis using store_invD(4) [OF inv] by blast
  next
    case False
    with leaveMany_all [OF inv lm] k show ?thesis by simp
  qed
qed

lemma leave_rooms_sub:
  assumes inv: "store_inv s" and ok: "leave u k s = Inr (r', s')"
  shows "rooms_sub s s'"
proof -
  from ok obtain r cs where r: "rooms s k = Some r" and u: "u \<in> set (memberIds r)"
    and lc: "leave_cmds u (drop_member u r) = (r', cs)" and s': "s' = exec cs s"
    by (auto simp: leave_Inr)
  from leave_cmds_step [OF inv r u lc] s' r show ?thesis
    by (auto simp: rooms_sub_def)
qed

lemma join_rooms_sub:
  assumes inv: "store_inv s" and ok: "join allow u k s = Inr (r', s')"
  shows "rooms_sub s s'"
proof -
  from ok obtain r where r: "rooms s k = Some r" and r': "r' = join_room u r"
    and s': "s' = exec [SET (room_id r') r', LPUSH u (room_id r')] s"
    by (auto simp: join_Inr)
  have "room_id r' = k" using store_invD(1) [OF inv r] r' by (simp add: join_room_def Let_def)
  with r s' show ?thesis by (intro rooms_sub_upd [of s k]) simp_all
qed

lemma kick_rooms_sub:
  assumes inv: "store_inv s" and ok: "kick kr m k s = Inr (res, s')"
  shows "rooms_sub s s'"
proof (cases "kr = m")
  case True
  with ok obtain r' where "leave kr k s = Inr (r', s')"
    by (auto simp: kick_self split: sum.splits)
  with inv show ?thesis by (rule leave_rooms_sub)
next
  case False
  with ok obtain r where r: "rooms s k = Some r"
    and s': "s' = exec [SET (room_id r) (drop_member m r), LREM m 1 (room_id r)] s"
    by (auto simp: kick_other_Inr)
  with store_invD(1) [OF inv r] show ?thesis by (intro rooms_sub_upd [of s k]) simp_all
qed

lemma transferOwnership_rooms_sub:
  assumes inv: "store_inv s" and ok: "transferOwnership ow c k s = Inr (r', s')"
  shows "rooms_sub s s'"
proof -
  from ok obtain r where r: "rooms s k = Some r" and s': "s' = exec [SET (room_id r) r'] s"
    by (auto simp: transferOwnership_Inr)
  with store_invD(1) [OF inv r] show ?thesis by (intro rooms_sub_upd [of s k]) simp_all
qed

lemma invite_rooms_sub:
  assumes inv: "store_inv s" and ok: "invite i g k s = Inr (res, s')"
  shows "rooms_sub s s'"
proof -
  from ok obtain r where r: "rooms s k = Some r"
    and s': "s' = exec [SET (room_id r) (invite_room g r)] s"
    by (auto simp: invite_Inr)
  with store_invD(1) [OF inv r] show ?thesis by (intro rooms_sub_upd [of s k]) simp_all
qed

lemma respondInvitation_rooms_sub:
  assumes inv: "store_inv s" and ok: "respondInvitation allow g acc k s = Inr (res, s')"
  shows "rooms_sub s s'"
proof -
  obtain r where r: "rooms s k = Some r"
    and acc_s': "acc \<Longrightarrow> s' = exec [LPUSH g (room_id r),
            SET (room_id r) (r\<lparr>waitingIds := remove1 g (waitingIds r), memberIds := memberIds r @ [g]\<rparr>)]
          (if \<not> allow \<and> isMemberOfAny s g then snd (leaveMany g [] s) else s)"
    and dec_s': "\<not> acc \<Longrightarrow> s' = exec [SET (room_id r)
            (r\<lparr>waitingIds := remove1 g (waitingIds r), refusedIds := refusedIds r @ [g]\<rparr>)] s"
    using respondInvitation_Inr [OF ok] by blast
  have id: "room_id r = k" using store_invD(1) [OF inv r] .
  define s1 where "s1 = (if \<not> allow \<and> isMemberOfAny s g then snd (leaveMany g [] s) else s)"
  have s1: "rooms_sub s s1"
  proof (cases "\<not> allow \<and> isMemberOfAny s g")
    case True
    obtain rs s2 where lm: "leaveMany g [] s = (rs, s2)" by fastforce
    from leaveMany_rooms_sub [OF inv lm] True show ?thesis by (simp add: s1_def lm)
  next
    case False
    then have "s1 = s" unfolding s1_def by (rule if_not_P)
    then show ?thesis by (simp add: rooms_sub_def)
  qed
  show ?thesis
  proof (cases acc)
    case True
    with acc_s' s1 r id show ?thesis by (auto simp: rooms_sub_def s1_def [symmetric])
  next
    case False
    with dec_s' r id show ?thesis by (intro rooms_sub_upd [of s k]) simp_all
  qed
qed

subsection \<open>The invariant of the reachable states\<close>

lemma sys_inv_init: "sys_inv allow (empty_store sids) t"
  unfolding sys_inv_def
  by (simp add: store_inv_empty single_room_empty) (simp add: keys_before_def empty_store_def)

lemma sys_inv_book:
  assumes si: "sys_inv False s t" and ok: "book False u p t s = Inr (r', s')"
  shows "sys_inv False s' (Suc t)"
proof -
  have inv: "store_inv s" and sr: "single_room s" and kb: "keys_before s t"
    using si by (auto simp: sys_inv_def)
  have fresh: "rooms s (js_String_nat t) = None" using kb by (rule keys_before_fresh)
  have rs: "rooms s' = (rooms s)(js_String_nat t \<mapsto> r')"
    using ok by (simp add: book_Inr)
  have "keys_before s' (Suc t)" using kb rs by (rule keys_before_book)
  with book_inv [OF inv fresh ok] book_single_room [OF _ sr ok] show ?thesis
    by (simp add: sys_inv_def)
qed

lemma sys_inv_other:
  assumes si: "sys_inv False s t" and inv': "store_inv s'" and sr': "single_room s'"
    and sub: "rooms_sub s s'"
  shows "sys_inv False s' (Suc t)"
  using si inv' sr' keys_before_sub [OF _ sub] by (simp add: sys_inv_def)

lemma step_sys_inv:
  assumes si: "sys_inv False s t" and ok: "step False t a s = Inr s'"
  shows "sys_inv False s' (Suc t)"
proof -
  have inv: "store_inv s" and sr: "single_room s" using si by (auto simp: sys_inv_def)
  from ok show ?thesis
  proof (cases rule: step_InrE)
    case (Book u p r)
    from si Book(2) show ?thesis by (rule sys_inv_book)
  next
    case (Join u k r)
    show ?thesis
      by (rule sys_inv_other [OF si join_inv [OF inv Join(2)] join_single_room [OF _ sr Join(2)]
            join_rooms_sub [OF inv Join(2)]]) simp_all
  next
    case (Leave u k r)
    show ?thesis
      by (rule sys_inv_other [OF si leave_inv [OF inv Leave(2)] leave_single_room [OF inv sr Leave(2)]
            leave_rooms_sub [OF inv Leave(2)]])
  next
    case (LeaveAll u rs)
    have all: "store_inv s' \<and> uid2rids s' u = [] \<and> (\<forall>v. v \<noteq> u \<longrightarrow> uid2rids s' v = uid2rids s v)"
      using leaveMany_all [OF inv LeaveAll(2)] by blast
    have "single_room s'" unfolding single_room_def
    proof
      fix v show "length (uid2rids s' v) \<le> 1"
        using all sr by (cases "v = u") (auto simp: single_room_def)
    qed
    with all show ?thesis by (intro sys_inv_other [OF si _ _ leaveMany_rooms_sub [OF inv LeaveAll(2)]]) auto
  next
    case (Kick kr m k res)
    show ?thesis
      by (rule sys_inv_other [OF si kick_inv [OF inv Kick(2)] kick_single_room [OF inv sr Kick(2)]
            kick_rooms_sub [OF inv Kick(2)]])
  next
    case (TransferOwnership ow c k r)
    show ?thesis
      by (rule sys_inv_other [OF si transferOwnership_inv [OF inv TransferOwnership(2)]
            transferOwnership_single_room [OF sr TransferOwnership(2)]
            transferOwnership_rooms_sub [OF inv TransferOwnership(2)]])
  next
    case (Invite i g k res)
    show ?thesis
      by (rule sys_inv_other [OF si invite_inv [OF inv Invite(2)] invite_single_room [OF sr Invite(2)]
            invite_rooms_sub [OF inv Invite(2)]])
  next
    case (RespondInvitation g acc k res)
    show ?thesis
      by (rule sys_inv_other [OF si respondInvitation_inv [OF inv RespondInvitation(2)]
            respondInvitation_single_room [OF inv _ sr RespondInvitation(2)]
            respondInvitation_rooms_sub [OF inv RespondInvitation(2)]]) simp
  qed
qed

lemma reachable_sys_inv: "reachable False s t \<Longrightarrow> sys_inv False s t"
proof (induction rule: reachable.induct)
  case (init sids t)
  show ?case by (rule sys_inv_init)
next
  case (call s t a s')
  from call.IH call.hyps(2) show ?case by (rule step_sys_inv)
next
  case (tick s t t')
  then show ?case by (auto simp: sys_inv_def intro: keys_before_mono)
next
  case (session s t sids)
  then show ?case
    by (simp add: sys_inv_def store_inv_def single_room_def keys_before_def)
qed

end
