(* ===== verification/Behaviour.thy ===== *)
theory Behaviour
  imports Coordinator
begin

text \<open>
  The functional behaviour of the RoomService methods that spec section 8 lists as
  testable: what a successful call returns and writes, which rejection a bad call
  gets, and the invitation workflow end to end. Each result is stated for every
  store satisfying the hypotheses, and says that the call returns, not only what it
  returns if it does. The fixtures \<open>room0\<close> and \<open>store0\<close> (user 1 has booked
  the public room "0" from an empty store; users 2 and 3 are online) are the concrete
  inputs of the witnesses.
\<close>

subsection \<open>Fixtures\<close>

definition sids0 :: "uid \<Rightarrow> string option" where
  "sids0 = [2 \<mapsto> ''s2'', 3 \<mapsto> ''s3'']"

definition room0 :: room where
  "room0 = \<lparr>room_id = ''0'', isPublic = True, ownerId = 1, memberIds = [1],
            waitingIds = [], refusedIds = []\<rparr>"

definition store0 :: store where
  "store0 = exec [SET ''0'' room0, LPUSH 1 ''0''] (empty_store sids0)"

definition room1 :: room where
  "room1 = \<lparr>room_id = ''0'', isPublic = True, ownerId = 1, memberIds = [1, 2],
            waitingIds = [], refusedIds = []\<rparr>"

definition store1 :: store where
  "store1 = exec [SET ''0'' room1, LPUSH 2 ''0''] store0"

definition room2 :: room where
  "room2 = \<lparr>room_id = ''1'', isPublic = False, ownerId = 3, memberIds = [3],
            waitingIds = [], refusedIds = []\<rparr>"

definition store2 :: store where
  "store2 = exec [SET ''1'' room2, LPUSH 3 ''1''] store0"

subsection \<open>Shared facts\<close>

lemma book_store0: "book False 1 True 0 (empty_store sids0) = Inr (room0, store0)"
  by (simp add: book_def book_plan_def isMemberOfAny_def empty_store_def Let_def
      js_String_nat.simps digit_char_def room0_def store0_def)

lemma store0_inv: "store_inv store0"
proof (rule book_inv [OF store_inv_empty _ book_store0])
  show "rooms (empty_store sids0) (js_String_nat 0) = None" by (simp add: empty_store_def)
qed

lemma store0_single_room: "single_room store0"
  by (rule book_single_room [OF _ single_room_empty book_store0]) simp

lemma store0_reachable: "reachable False store0 1"
proof -
  have "step False 0 (Book 1 True) (empty_store sids0) = Inr store0"
    by (simp add: store_of_def book_store0)
  from reachable.call [OF reachable.init this] show ?thesis by simp
qed

lemma join_store0: "join False 2 ''0'' store0 = Inr (room1, store1)"
  by (simp add: join_def join_plan_def get_def isMemberOfAny_def store0_def store1_def room0_def
      room1_def empty_store_def join_room_def Let_def js_splice1_def)

lemma store1_inv: "store_inv store1"
  by (rule join_inv [OF store0_inv join_store0]) simp

lemma book_store2: "book False 3 False 1 store0 = Inr (room2, store2)"
  by (simp add: book_def book_plan_def isMemberOfAny_def store0_def store2_def room2_def
      empty_store_def Let_def js_String_nat.simps digit_char_def)

lemma store2_inv: "store_inv store2 \<and> single_room store2"
proof -
  have "rooms store0 (js_String_nat 1) = None"
    by (simp add: store0_def empty_store_def js_String_nat.simps digit_char_def)
  from book_inv [OF store0_inv this book_store2] book_single_room [OF _ store0_single_room book_store2]
  show ?thesis by simp
qed

lemma leave_cmds_room:
  assumes "room_id r = k"
  shows "rooms (exec (snd (leave_cmds u (drop_member u r))) s) k =
         (if memberIds (drop_member u r) = [] then None
          else Some (fst (leave_cmds u (drop_member u r))))"
  using assms by (simp add: leave_cmds_def Let_def)

lemma leaveMany_one_room:
  assumes "uid2rids s u = [k]" and "rooms s k = Some r"
  shows "leaveMany u [] s =
           ([fst (leave_cmds u (drop_member u r))], exec (snd (leave_cmds u (drop_member u r))) s)"
  using assms by (simp add: leaveMany_def leaveMany_plan_def split_def Let_def)

subsection \<open>book and join\<close>

text \<open>A user whose index names exactly one room leaves it with \<open>leaveMany\<close>: the
  room is deleted if the user was alone, otherwise written back without the user,
  and nothing else changes but the user's index, which becomes empty.\<close>

lemma leaveMany_single_room:
  assumes inv: "store_inv s" and ix: "uid2rids s g = [k2]" and r2: "rooms s k2 = Some r2"
  shows "\<exists>r2' s'. leaveMany g [] s = ([r2'], s') \<and> store_inv s' \<and> room_id r2' = k2 \<and>
           uid2rids s' g = [] \<and> (\<forall>k'. k' \<noteq> k2 \<longrightarrow> rooms s' k' = rooms s k') \<and>
           (if memberIds r2 = [g] then rooms s' k2 = None
            else rooms s' k2 = Some r2' \<and> g \<notin> set (memberIds r2'))"
proof -
  have g2: "g \<in> set (memberIds r2)" using store_inv_index_member [OF inv r2, of g] ix by simp
  have id2: "room_id r2 = k2" using store_invD(1) [OF inv r2] .
  have d2: "distinct (memberIds r2)" using store_invD(2) [OF inv r2] by (simp add: room_wf_def)
  obtain r2' cs where lc: "leave_cmds g (drop_member g r2) = (r2', cs)" by fastforce
  have lm: "leaveMany g [] s = ([r2'], exec cs s)" using leaveMany_one_room [OF ix r2] lc by simp
  have step: "store_inv (exec cs s) \<and> uid2rids (exec cs s) = (uid2rids s)(g := remove1 k2 (uid2rids s g)) \<and>
      (\<forall>k'. k' \<noteq> k2 \<longrightarrow> rooms (exec cs s) k' = rooms s k')"
    by (rule leave_cmds_step [OF inv r2 g2 lc])
  have lid: "room_id r2' = k2" using lc id2 by (auto simp: leave_cmds_def Let_def split: if_splits)
  have dm: "memberIds (drop_member g r2) = remove1 g (memberIds r2)" by (rule drop_member_present [OF g2])
  have mem2: "memberIds r2' = memberIds (drop_member g r2)"
    using lc by (auto simp: leave_cmds_def Let_def split: if_splits)
  have "rooms (exec cs s) k2 = (if memberIds (drop_member g r2) = [] then None else Some r2')"
    using leave_cmds_room [OF id2, of g s] lc by simp
  then have "if memberIds r2 = [g] then rooms (exec cs s) k2 = None
      else rooms (exec cs s) k2 = Some r2' \<and> g \<notin> set (memberIds r2')"
    using mem2 dm d2 remove1_eq_Nil_iff [OF g2] by auto
  with lm step lid ix show ?thesis by auto
qed

text \<open>
  C2. \<open>book\<close> followed by \<open>get\<close> of the new id returns a room whose only member
  and owner is the booker, with nobody waiting or refused, the requested visibility,
  and the id \<open>String(Date.now())\<close>; the booker's reverse index gains the id.
\<close>

theorem book_then_get:
  assumes "book allow u p now s = Inr (r, s')"
  shows "get s' (js_String_nat now) = Inr r \<and> room_id r = js_String_nat now \<and>
         isPublic r = p \<and> ownerId r = u \<and> memberIds r = [u] \<and>
         waitingIds r = [] \<and> refusedIds r = [] \<and>
         uid2rids s' u = js_String_nat now # uid2rids s u"
  using assms by (auto simp: book_def book_plan_def get_def Let_def split: if_splits)

theorem book_then_get_witness:
  "book False 1 True 0 (empty_store sids0) = Inr (room0, store0) \<and>
   get store0 ''0'' = Inr room0 \<and> memberIds room0 = [1] \<and> ownerId room0 = 1 \<and>
   waitingIds room0 = [] \<and> refusedIds room0 = []"
proof -
  have "js_String_nat 0 = ''0''" by (simp add: js_String_nat.simps digit_char_def)
  with book_then_get [OF book_store0] show ?thesis by (simp add: book_store0)
qed

text \<open>
  C3. With \<open>allowJoinMultipleRooms\<close> off, a successful \<open>join\<close> on a consistent
  store appends the joiner to the room's members, where it then occurs exactly once,
  writes the room back under its id, and leaves the joiner's reverse index holding
  just that room.
\<close>

theorem join_adds_joiner_once:
  assumes inv: "store_inv s" and ok: "join False u k s = Inr (r', s')"
  shows "count_list (memberIds r') u = 1 \<and> rooms s' k = Some r' \<and> uid2rids s' u = [k] \<and>
         (\<exists>r. rooms s k = Some r \<and> memberIds r' = memberIds r @ [u])"
proof -
  from ok obtain r where idx: "uid2rids s u = []" and r: "rooms s k = Some r"
    and r': "r' = join_room u r" and s': "s' = exec [SET (room_id r') r', LPUSH u (room_id r')] s"
    by (auto simp: join_Inr)
  have id: "room_id r' = k" using store_invD(1) [OF inv r] r' by (simp add: join_room_def Let_def)
  have "u \<notin> set (memberIds r)" using store_inv_index_member [OF inv r, of u] idx by simp
  then have "count_list (memberIds r) u = 0" by (simp add: count_list_0_iff)
  with r' have "count_list (memberIds r') u = 1" by (simp add: join_room_def Let_def)
  with r r' s' id idx show ?thesis by (simp add: join_room_def Let_def)
qed

theorem join_adds_joiner_once_witness:
  "\<exists>r' s'. join False 2 ''0'' store0 = Inr (r', s') \<and> count_list (memberIds r') 2 = 1 \<and>
     rooms s' ''0'' = Some r' \<and> uid2rids s' 2 = [''0''] \<and> memberIds r' = [1, 2]"
proof -
  let ?r' = "join_room 2 room0"
  have ok: "join False 2 ''0'' store0 = Inr (?r', exec [SET ''0'' ?r', LPUSH 2 ''0''] store0)"
    by (simp add: join_def join_plan_def get_def isMemberOfAny_def store0_def room0_def
        empty_store_def join_room_def Let_def js_splice1_def)
  from join_adds_joiner_once [OF store0_inv ok] ok show ?thesis
    by (auto simp: join_room_def Let_def room0_def)
qed

text \<open>
  C4. With \<open>allowJoinMultipleRooms\<close> on, \<open>join\<close> does not check whether the
  joiner is already a member of the public room: a member who joins again is appended
  a second time, so the room is no longer duplicate-free (spec section 8 flags the
  duplicate as a defect), and the reverse index receives the room again.
\<close>

theorem join_member_again_duplicates:
  assumes r: "rooms s k = Some r" and pub: "isPublic r" and u: "u \<in> set (memberIds r)"
  shows "\<exists>r' s'. join True u k s = Inr (r', s') \<and>
           count_list (memberIds r') u = Suc (count_list (memberIds r) u) \<and>
           \<not> distinct (memberIds r') \<and> \<not> room_wf r' \<and>
           uid2rids s' u = room_id r # uid2rids s u"
proof -
  have ok: "join True u k s = Inr (join_room u r,
      exec [SET (room_id r) (join_room u r), LPUSH u (room_id r)] s)"
    using r pub by (simp add: join_def join_plan_def get_def join_room_def Let_def)
  have "\<not> distinct (memberIds (join_room u r))" using u by (simp add: join_room_def Let_def)
  then show ?thesis using ok by (auto simp: join_room_def Let_def room_wf_def)
qed

theorem join_member_again_duplicates_witness:
  "rooms store1 ''0'' = Some room1 \<and> isPublic room1 \<and> 2 \<in> set (memberIds room1) \<and>
   (\<exists>r' s'. join True 2 ''0'' store1 = Inr (r', s') \<and> count_list (memberIds r') 2 = 2 \<and>
      \<not> distinct (memberIds r') \<and> \<not> room_wf r')"
proof -
  have h: "rooms store1 ''0'' = Some room1" "isPublic room1" "2 \<in> set (memberIds room1)"
    by (simp_all add: store1_def room1_def)
  from join_member_again_duplicates [OF h] h show ?thesis by (auto simp: room1_def)
qed

subsection \<open>leave and kick\<close>

text \<open>
  C5. When the last member leaves, \<open>leave\<close> succeeds, deletes the room (a later
  \<open>get\<close> answers 'Room does not exist!'), records the leaver as refused and removes
  the room from the leaver's reverse index.
\<close>

theorem leave_last_member_deletes_room:
  assumes r: "rooms s k = Some r" and id: "room_id r = k" and m: "memberIds r = [u]"
  shows "\<exists>r' s'. leave u k s = Inr (r', s') \<and> get s' k = Inl RoomNotExist \<and>
           memberIds r' = [] \<and> refusedIds r' = refusedIds r @ [u] \<and>
           uid2rids s' u = remove1 k (uid2rids s u)"
proof -
  have d: "memberIds (drop_member u r) = []" using m by (simp add: drop_member_def)
  have "leave u k s = Inr (drop_member u r, exec [DEL k, LREM u 1 k] s)"
    using r id d by (simp add: leave_def leave_plan_def get_def m leave_cmds_def)
  then show ?thesis using d by (simp add: get_def drop_member_def)
qed

theorem leave_last_member_deletes_room_witness:
  "rooms store0 ''0'' = Some room0 \<and> room_id room0 = ''0'' \<and> memberIds room0 = [1] \<and>
   (\<exists>r' s'. leave 1 ''0'' store0 = Inr (r', s') \<and> get s' ''0'' = Inl RoomNotExist \<and>
      uid2rids s' 1 = [])"
proof -
  have h: "rooms store0 ''0'' = Some room0" "room_id room0 = ''0''" "memberIds room0 = [1]"
    by (simp_all add: store0_def room0_def)
  have "uid2rids store0 1 = [''0'']" by (simp add: store0_def empty_store_def)
  with leave_last_member_deletes_room [OF h] h show ?thesis by auto
qed

text \<open>
  C6. When the owner leaves a room with at least one other member, \<open>leave\<close>
  succeeds, removes exactly the owner from the members, makes the first remaining
  member (position 0, in insertion order) the new owner and writes the room back.
\<close>

theorem leave_owner_hands_over:
  assumes r: "rooms s k = Some r" and id: "room_id r = k" and wf: "room_wf r"
    and own: "ownerId r = u" and two: "2 \<le> length (memberIds r)"
  shows "\<exists>r' s'. leave u k s = Inr (r', s') \<and> memberIds r' = remove1 u (memberIds r) \<and>
           ownerId r' = hd (memberIds r') \<and> rooms s' k = Some r'"
proof -
  have u: "u \<in> set (memberIds r)" using wf own by (simp add: room_wf_def)
  have dm: "memberIds (drop_member u r) = remove1 u (memberIds r)" by (rule drop_member_present [OF u])
  have "length (remove1 u (memberIds r)) = length (memberIds r) - 1"
    using u by (simp add: length_remove1)
  with two have "0 < length (memberIds (drop_member u r))" by (simp add: dm)
  then have ne: "memberIds (drop_member u r) \<noteq> []" by simp
  obtain r' cs where lc: "leave_cmds u (drop_member u r) = (r', cs)" by fastforce
  have ok: "leave u k s = Inr (r', exec cs s)"
    using r u lc by (simp add: leave_def leave_plan_def get_def)
  have r': "r' = (drop_member u r)\<lparr>ownerId := hd (memberIds (drop_member u r))\<rparr>"
    using lc ne own by (simp add: leave_cmds_def Let_def)
  have "rooms (exec cs s) k = Some r'"
    using leave_cmds_room [of r k u s] id lc ne by simp
  with ok r' dm show ?thesis by auto
qed

theorem leave_owner_hands_over_witness:
  "rooms store1 ''0'' = Some room1 \<and> room_id room1 = ''0'' \<and> room_wf room1 \<and>
   ownerId room1 = 1 \<and> 2 \<le> length (memberIds room1) \<and>
   (\<exists>r' s'. leave 1 ''0'' store1 = Inr (r', s') \<and> memberIds r' = [2] \<and> ownerId r' = 2)"
proof -
  have h: "rooms store1 ''0'' = Some room1" "room_id room1 = ''0''" "room_wf room1"
      "ownerId room1 = 1" "2 \<le> length (memberIds room1)"
    by (simp_all add: store1_def room1_def room_wf_def)
  from leave_owner_hands_over [OF h] h show ?thesis by (auto simp: room1_def)
qed

text \<open>
  C7. \<open>kick\<close> by anyone other than the room's owner, of anyone else, is rejected
  with 'You are not owner of this room!', whether or not the kicker is a member.
\<close>

theorem kick_by_non_owner_rejected:
  assumes "rooms s k = Some r" and "ownerId r \<noteq> kr" and "m \<noteq> kr"
  shows "kick kr m k s = Inl NotOwner"
  using assms by (auto simp: kick_def kick_plan_def get_def)

theorem kick_by_non_owner_rejected_witness:
  "rooms store1 ''0'' = Some room1 \<and> ownerId room1 \<noteq> 2 \<and> 2 \<in> set (memberIds room1) \<and>
   kick 2 1 ''0'' store1 = Inl NotOwner"
proof -
  have h: "rooms store1 ''0'' = Some room1" "ownerId room1 \<noteq> 2" "(1::int) \<noteq> 2"
    by (simp_all add: store1_def room1_def)
  from kick_by_non_owner_rejected [OF h] h show ?thesis by (simp add: room1_def)
qed

text \<open>
  C10. A kick by the room's owner of another member succeeds: the member is spliced
  out of \<open>memberIds\<close> and pushed onto \<open>refusedIds\<close>, the owner and the invitees
  stay, the room is written back under its key and leaves the member's index, and the
  result carries the member's socket id read in the same pipeline.
\<close>

theorem kick_removes_member:
  assumes inv: "store_inv s" and r: "rooms s k = Some r" and own: "ownerId r = kr"
    and m: "m \<in> set (memberIds r)" and ne: "kr \<noteq> m"
  shows "\<exists>r'. kick kr m k s = Inr (Kicked r' (uid2sid s m), exec [SET k r', LREM m 1 k] s) \<and>
           memberIds r' = remove1 m (memberIds r) \<and> refusedIds r' = refusedIds r @ [m] \<and>
           ownerId r' = kr \<and> waitingIds r' = waitingIds r \<and> isPublic r' = isPublic r \<and>
           room_id r' = k"
proof -
  have id: "room_id r = k" using store_invD(1) [OF inv r] .
  have "kick kr m k s = Inr (Kicked (drop_member m r) (uid2sid s m),
          exec [SET k (drop_member m r), LREM m 1 k] s)"
    using kick_other_Inr [OF ne] r own m id by blast
  then show ?thesis
    using own m id by (auto simp: drop_member_def js_splice1_indexOf_present)
qed

text \<open>User 1, the owner of room ''0'' of \<open>store1\<close>, kicks user 2, who is online
  with socket ''s2''.\<close>

theorem kick_removes_member_witness:
  "\<exists>r'. kick 1 2 ''0'' store1 = Inr (Kicked r' (Some ''s2''), exec [SET ''0'' r', LREM 2 1 ''0''] store1) \<and>
        memberIds r' = [1] \<and> refusedIds r' = [2] \<and> ownerId r' = 1"
proof -
  have h: "rooms store1 ''0'' = Some room1" "ownerId room1 = 1" "(2::int) \<in> set (memberIds room1)"
    "(1::int) \<noteq> 2"
    by (simp_all add: store1_def room1_def)
  have "uid2sid store1 2 = Some ''s2''"
    by (simp add: store1_def store0_def empty_store_def sids0_def)
  with kick_removes_member [OF store1_inv h] show ?thesis
    by (simp add: room1_def) blast
qed

text \<open>
  C11. \<open>invite\<close> tells a user who is not a member of an existing room whether the
  guest is online: the guest's socket id is checked (line 336) before the inviter's
  membership (line 340), so the non-member is answered 'Please only invite online
  user!' exactly when the guest is offline, and 'You are not in this room!' otherwise.
\<close>

theorem invite_by_non_member_reveals_presence:
  assumes "rooms s k = Some r" and "i \<notin> set (memberIds r)"
  shows "invite i g k s = Inl (if uid2sid s g = None then GuestOffline else NotInRoom)"
  using assms by (auto simp: invite_def invite_plan_def split: option.splits)

text \<open>User 3 is no member of room ''0'' of \<open>store1\<close>; asking to invite user 2
  (online) and user 4 (offline) gets two different answers.\<close>

theorem invite_by_non_member_reveals_presence_witness:
  "invite 3 2 ''0'' store1 = Inl NotInRoom \<and> invite 3 4 ''0'' store1 = Inl GuestOffline"
proof -
  have h: "rooms store1 ''0'' = Some room1" "(3::int) \<notin> set (memberIds room1)"
    by (simp_all add: store1_def room1_def)
  have "uid2sid store1 2 = Some ''s2''" "uid2sid store1 4 = None"
    by (simp_all add: store1_def store0_def empty_store_def sids0_def)
  with invite_by_non_member_reveals_presence [OF h, of 2] invite_by_non_member_reveals_presence [OF h, of 4]
  show ?thesis by simp
qed

subsection \<open>The invitation workflow\<close>

text \<open>
  C8. After a successful \<open>invite\<close> on a consistent store, the guest can decline:
  \<open>respondInvitation\<close> with \<open>isAccpeted = false\<close> succeeds, and the room it
  writes back has the guest neither among the members nor waiting, but among the
  refused; no room is left and no reverse index changes.
\<close>

theorem invite_then_decline:
  assumes inv: "store_inv s" and iv: "invite i g k s = Inr ((r1, sid), s1)"
  shows "\<exists>r2 s2. respondInvitation allow g False k s1 = Inr ((r2, []), s2) \<and>
           g \<notin> set (memberIds r2) \<and> g \<notin> set (waitingIds r2) \<and> g \<in> set (refusedIds r2) \<and>
           rooms s2 k = Some r2 \<and> uid2rids s2 = uid2rids s"
proof -
  from iv obtain r where r: "rooms s k = Some r" and gm: "g \<notin> set (memberIds r)"
    and gw: "g \<notin> set (waitingIds r)" and r1: "r1 = invite_room g r"
    and s1: "s1 = exec [SET (room_id r) (invite_room g r)] s"
    by (auto simp: invite_Inr)
  have id: "room_id r = k" using store_invD(1) [OF inv r] .
  have w1: "waitingIds r1 = waitingIds r @ [g]" by (simp add: r1 invite_room_def Let_def)
  have "remove1 g (waitingIds r1) = waitingIds r" using gw w1 by (simp add: remove1_append)
  moreover have "rooms s1 k = Some r1" using s1 id r1 by simp
  moreover have "g \<in> set (waitingIds r1)" using w1 by simp
  ultimately have ok: "respondInvitation allow g False k s1 =
      Inr ((r1\<lparr>waitingIds := waitingIds r, refusedIds := refusedIds r1 @ [g]\<rparr>, []),
           exec [SET k (r1\<lparr>waitingIds := waitingIds r, refusedIds := refusedIds r1 @ [g]\<rparr>)] s1)"
    using id r1 by (simp add: respondInvitation_def get_def Let_def js_splice1_indexOf_present
        invite_room_def)
  have "memberIds r1 = memberIds r" by (simp add: r1 invite_room_def Let_def)
  with ok gm gw s1 show ?thesis by simp
qed

theorem invite_then_decline_witness:
  "store_inv store1 \<and> invite 1 3 ''0'' store1 = Inr ((invite_room 3 room1, ''s3''),
     exec [SET ''0'' (invite_room 3 room1)] store1) \<and>
   (\<exists>r2 s2. respondInvitation False 3 False ''0'' (exec [SET ''0'' (invite_room 3 room1)] store1)
      = Inr ((r2, []), s2) \<and> 3 \<notin> set (memberIds r2) \<and> 3 \<notin> set (waitingIds r2) \<and>
      3 \<in> set (refusedIds r2))"
proof -
  have iv: "invite 1 3 ''0'' store1 = Inr ((invite_room 3 room1, ''s3''),
     exec [SET ''0'' (invite_room 3 room1)] store1)"
    by (simp add: invite_def invite_plan_def store1_def store0_def empty_store_def sids0_def
        room1_def Let_def invite_room_def)
  from invite_then_decline [OF store1_inv iv] iv store1_inv show ?thesis by blast
qed

text \<open>
  C9. With \<open>allowJoinMultipleRooms\<close> off, a guest who is a member of another room
  and accepts an invitation is first taken out of that room (which is deleted if the
  guest was its only member) and then added to the inviting room: the call succeeds,
  reports the room it left, and the guest's reverse index ends holding only the new
  room.
\<close>

theorem invite_then_accept_switches_room:
  assumes inv: "store_inv s" and sr: "single_room s"
    and r2: "rooms s k2 = Some r2" and g2: "g \<in> set (memberIds r2)" and kk: "k2 \<noteq> k"
    and iv: "invite i g k s = Inr ((r1, sid), s1)"
  shows "\<exists>r' left s'. respondInvitation False g True k s1 = Inr ((r', left), s') \<and>
           memberIds r' = memberIds r1 @ [g] \<and> g \<notin> set (waitingIds r') \<and>
           rooms s' k = Some r' \<and> uid2rids s' g = [k] \<and> map room_id left = [k2] \<and>
           (if memberIds r2 = [g] then rooms s' k2 = None
            else rooms s' k2 = Some (hd left) \<and> g \<notin> set (memberIds (hd left)))"
proof -
  from iv obtain r where r: "rooms s k = Some r" and gw: "g \<notin> set (waitingIds r)"
    and r1: "r1 = invite_room g r" and s1: "s1 = exec [SET (room_id r) (invite_room g r)] s"
    by (auto simp: invite_Inr)
  have id: "room_id r = k" using store_invD(1) [OF inv r] .
  have w1: "waitingIds r1 = waitingIds r @ [g]" by (simp add: r1 invite_room_def Let_def)
  have rm: "remove1 g (waitingIds r1) = waitingIds r" using gw w1 by (simp add: remove1_append)
  \<comment> \<open>the guest's index before the call is just the other room\<close>
  have ix: "uid2rids s g = [k2]" by (rule single_room_index [OF inv sr r2 g2])
  have ix1: "uid2rids s1 g = [k2]" using s1 ix by simp
  have rk1: "rooms s1 k = Some r1" using s1 id r1 by simp
  have rk2: "rooms s1 k2 = Some r2" using s1 id kk r2 by simp
  have inv1: "store_inv s1" using invite_inv [OF inv iv] .
  \<comment> \<open>leaveMany takes the guest out of the other room\<close>
  obtain r2' s1' where lm: "leaveMany g [] s1 = ([r2'], s1')" and lid: "room_id r2' = k2"
    and ix1': "uid2rids s1' g = []"
    and other: "if memberIds r2 = [g] then rooms s1' k2 = None
                else rooms s1' k2 = Some r2' \<and> g \<notin> set (memberIds r2')"
    using leaveMany_single_room [OF inv1 ix1 rk2] by blast
  \<comment> \<open>the call itself\<close>
  define r' where "r' = r1\<lparr>waitingIds := waitingIds r, memberIds := memberIds r1 @ [g]\<rparr>"
  have "g \<in> set (waitingIds r1)" using w1 by simp
  then have ok: "respondInvitation False g True k s1 =
      Inr ((r', [r2']), exec [LPUSH g k, SET k r'] s1')"
    using rk1 ix1 lm rm id r1
    by (simp add: respondInvitation_def get_def Let_def js_splice1_indexOf_present
        isMemberOfAny_def r'_def invite_room_def)
  have rk: "rooms (exec [LPUSH g k, SET k r'] s1') k = Some r'" by simp
  have ixg: "uid2rids (exec [LPUSH g k, SET k r'] s1') g = [k]" using ix1' by simp
  have gw': "g \<notin> set (waitingIds r')" using gw by (simp add: r'_def)
  have other': "if memberIds r2 = [g] then rooms (exec [LPUSH g k, SET k r'] s1') k2 = None
      else rooms (exec [LPUSH g k, SET k r'] s1') k2 = Some r2' \<and> g \<notin> set (memberIds r2')"
    using other kk by simp
  show ?thesis
    using ok rk ixg gw' lid other' by (auto simp: r'_def)
qed

theorem invite_then_accept_switches_room_witness:
  "store_inv store2 \<and> single_room store2 \<and> rooms store2 ''1'' = Some room2 \<and>
   3 \<in> set (memberIds room2) \<and> ''1'' \<noteq> ''0'' \<and>
   invite 1 3 ''0'' store2 = Inr ((invite_room 3 room0, ''s3''),
     exec [SET ''0'' (invite_room 3 room0)] store2) \<and>
   (\<exists>r' left s'. respondInvitation False 3 True ''0'' (exec [SET ''0'' (invite_room 3 room0)] store2)
      = Inr ((r', left), s') \<and> memberIds r' = [1, 3] \<and> uid2rids s' 3 = [''0''] \<and>
      rooms s' ''1'' = None)"
proof -
  have h: "rooms store2 ''1'' = Some room2" "3 \<in> set (memberIds room2)" "''1'' \<noteq> ''0''"
    by (simp_all add: store2_def room2_def)
  have iv: "invite 1 3 ''0'' store2 = Inr ((invite_room 3 room0, ''s3''),
     exec [SET ''0'' (invite_room 3 room0)] store2)"
    by (simp add: invite_def invite_plan_def store2_def store0_def empty_store_def sids0_def
        room0_def room2_def Let_def invite_room_def)
  have inv2: "store_inv store2" "single_room store2" using store2_inv by auto
  from invite_then_accept_switches_room [OF inv2 h iv] iv inv2 h show ?thesis
    by (auto simp: invite_room_def Let_def room0_def room2_def)
qed

subsection \<open>Defects of the array handling\<close>

text \<open>
  C13. When the joiner of a public room was not invited, \<open>join\<close> still splices
  \<open>waitingIds\<close> at \<open>indexOf\<close> = -1, which removes the last pending invitation:
  the room written back has lost its last invitee.
\<close>

theorem join_uninvited_drops_last_invitee:
  assumes ok: "join allow u k s = Inr (r', s')" and r: "rooms s k = Some r"
    and nw: "u \<notin> set (waitingIds r)"
  shows "waitingIds r' = butlast (waitingIds r) \<and> rooms s' (room_id r) = Some r'"
proof -
  from ok r have r': "r' = join_room u r"
    and s': "s' = exec [SET (room_id r') r', LPUSH u (room_id r')] s"
    by (auto simp: join_Inr)
  then show ?thesis using nw by (simp add: join_room_def Let_def js_splice1_minus_one)
qed

theorem join_uninvited_drops_last_invitee_witness:
  "rooms store0 ''0'' = Some room0 \<and>
   (let s = store0\<lparr>rooms := [''0'' \<mapsto> room0\<lparr>waitingIds := [3, 4]\<rparr>]\<rparr>
    in \<exists>r' s'. join False 2 ''0'' s = Inr (r', s') \<and> 2 \<notin> set [3, 4::int] \<and> waitingIds r' = [3])"
proof -
  let ?r = "room0\<lparr>waitingIds := [3, 4]\<rparr>"
  let ?s = "store0\<lparr>rooms := [''0'' \<mapsto> ?r]\<rparr>"
  have ok: "join False 2 ''0'' ?s = Inr (join_room 2 ?r,
      exec [SET ''0'' (join_room 2 ?r), LPUSH 2 ''0''] ?s)"
    by (simp add: join_def join_plan_def get_def isMemberOfAny_def store0_def empty_store_def
        room0_def join_room_def Let_def)
  have "rooms ?s ''0'' = Some ?r" "(2::int) \<notin> set (waitingIds ?r)" by simp_all
  from join_uninvited_drops_last_invitee [OF ok this] ok show ?thesis
    by (simp add: store0_def room0_def)
qed

text \<open>
  C14. \<open>join\<close> splices \<open>refusedIds\<close> at the joiner's index in the already
  spliced \<open>waitingIds\<close>, where the joiner no longer is: with duplicate-free
  invitations that index is always -1, so every successful join removes the last
  entry of \<open>refusedIds\<close>, whoever it is, and never the joiner's own.
\<close>

theorem join_drops_last_refused:
  assumes ok: "join allow u k s = Inr (r', s')" and r: "rooms s k = Some r"
    and dw: "distinct (waitingIds r)"
  shows "refusedIds r' = butlast (refusedIds r)"
proof -
  from ok r have r': "r' = join_room u r" by (auto simp: join_Inr)
  have "u \<notin> set (js_splice1 (waitingIds r) (js_indexOf (waitingIds r) u))"
    using dw by (rule js_splice1_indexOf_gone)
  then show ?thesis by (simp add: r' join_room_def Let_def js_splice1_minus_one)
qed

theorem join_drops_last_refused_witness:
  "let r = room0\<lparr>refusedIds := [5, 2]\<rparr>; s = store0\<lparr>rooms := [''0'' \<mapsto> r]\<rparr>
   in rooms s ''0'' = Some r \<and> distinct (waitingIds r) \<and>
      (\<exists>r' s'. join False 2 ''0'' s = Inr (r', s') \<and> refusedIds r' = [5] \<and> 2 \<in> set (memberIds r'))"
proof -
  let ?r = "room0\<lparr>refusedIds := [5, 2]\<rparr>"
  let ?s = "store0\<lparr>rooms := [''0'' \<mapsto> ?r]\<rparr>"
  have ok: "join False 2 ''0'' ?s = Inr (join_room 2 ?r,
      exec [SET ''0'' (join_room 2 ?r), LPUSH 2 ''0''] ?s)"
    by (simp add: join_def join_plan_def get_def isMemberOfAny_def store0_def empty_store_def
        room0_def join_room_def Let_def)
  have h: "rooms ?s ''0'' = Some ?r" "distinct (waitingIds ?r)" by (simp_all add: room0_def)
  from join_drops_last_refused [OF ok h] ok h show ?thesis
    by (simp add: join_room_def Let_def room0_def)
qed

text \<open>
  C15. \<open>invite\<close> pushes the guest onto \<open>waitingIds\<close> and then splices
  \<open>refusedIds\<close> at the guest's index in \<open>waitingIds\<close>, which is the old length
  of \<open>waitingIds\<close>: the refused entry at that position is removed, whoever it is,
  instead of the guest's own entry.
\<close>

theorem invite_splices_refused_at_waiting_length:
  assumes ok: "invite i g k s = Inr ((r', sid), s')" and r: "rooms s k = Some r"
  shows "refusedIds r' = take (length (waitingIds r)) (refusedIds r) @
                         drop (Suc (length (waitingIds r))) (refusedIds r)"
proof -
  from ok r have gw: "g \<notin> set (waitingIds r)" and r': "r' = invite_room g r"
    by (auto simp: invite_Inr)
  have idx: "x \<notin> set xs \<Longrightarrow> js_indexOf (xs @ [x]) x = int (length xs)" for x :: uid and xs
    by (induction xs) (auto simp: Let_def)
  show ?thesis using gw by (simp add: r' invite_room_def Let_def idx js_splice1_nonneg)
qed

theorem invite_splices_refused_at_waiting_length_witness:
  "let r = room0\<lparr>refusedIds := [7, 3]\<rparr>; s = store0\<lparr>rooms := [''0'' \<mapsto> r]\<rparr>
   in rooms s ''0'' = Some r \<and>
      (\<exists>r' sid s'. invite 1 3 ''0'' s = Inr ((r', sid), s') \<and> refusedIds r' = [3] \<and>
         waitingIds r' = [3])"
proof -
  let ?r = "room0\<lparr>refusedIds := [7, 3]\<rparr>"
  let ?s = "store0\<lparr>rooms := [''0'' \<mapsto> ?r]\<rparr>"
  have ok: "invite 1 3 ''0'' ?s = Inr ((invite_room 3 ?r, ''s3''),
      exec [SET ''0'' (invite_room 3 ?r)] ?s)"
    by (simp add: invite_def invite_plan_def store0_def empty_store_def sids0_def room0_def
        invite_room_def Let_def)
  have h: "rooms ?s ''0'' = Some ?r" by simp
  from invite_splices_refused_at_waiting_length [OF ok h] ok show ?thesis
    by (simp add: invite_room_def Let_def room0_def)
qed

text \<open>
  C16. A dangling entry of the reverse index (a room that lists no longer the user,
  which spec section 7 says the coordinator must tolerate) makes \<open>leaveMany\<close>
  splice at \<open>indexOf\<close> = -1: it evicts the room's last member instead, keeps the
  owner, and deletes the room if that member was alone; the evicted member's own
  index is not touched.
\<close>

theorem leaveMany_dangling_entry_evicts_last_member:
  assumes ix: "uid2rids s u = [k]" and r: "rooms s k = Some r" and id: "room_id r = k"
    and nm: "u \<notin> set (memberIds r)" and no: "ownerId r \<noteq> u"
  shows "\<exists>r' s'. leaveMany u [] s = ([r'], s') \<and> memberIds r' = butlast (memberIds r) \<and>
           ownerId r' = ownerId r \<and>
           rooms s' k = (if butlast (memberIds r) = [] then None else Some r') \<and>
           (\<forall>v. v \<noteq> u \<longrightarrow> uid2rids s' v = uid2rids s v)"
proof -
  have dm: "memberIds (drop_member u r) = butlast (memberIds r)"
    using nm by (simp add: drop_member_def js_splice1_minus_one)
  obtain r' cs where lc: "leave_cmds u (drop_member u r) = (r', cs)" by fastforce
  have lm: "leaveMany u [] s = ([r'], exec cs s)" using leaveMany_one_room [OF ix r] lc by simp
  have mem: "memberIds r' = butlast (memberIds r)" and own: "ownerId r' = ownerId r"
    using lc dm no by (auto simp: leave_cmds_def Let_def split: if_splits)
  have "rooms (exec cs s) k = (if butlast (memberIds r) = [] then None else Some r')"
    using leave_cmds_room [OF id, of u s] lc dm by simp
  moreover have "\<forall>v. v \<noteq> u \<longrightarrow> uid2rids (exec cs s) v = uid2rids s v"
    using lc by (auto simp: leave_cmds_def Let_def split: if_splits)
  ultimately show ?thesis using lm mem own by blast
qed

theorem leaveMany_dangling_entry_evicts_last_member_witness:
  "let r = room1\<lparr>ownerId := 2\<rparr>;
       s = \<lparr>rooms = [''0'' \<mapsto> r], uid2rids = (\<lambda>_. [])(1 := [''0''], 2 := [''0''], 3 := [''0'']),
            uid2sid = sids0\<rparr>
   in uid2rids s 3 = [''0''] \<and> rooms s ''0'' = Some r \<and> room_id r = ''0'' \<and>
      3 \<notin> set (memberIds r) \<and> ownerId r \<noteq> 3 \<and>
      (\<exists>r' s'. leaveMany 3 [] s = ([r'], s') \<and> memberIds r' = [1] \<and> ownerId r' = 2 \<and>
         \<not> room_wf r' \<and> uid2rids s' 2 = [''0''])"
proof -
  let ?r = "room1\<lparr>ownerId := 2\<rparr>"
  let ?s = "\<lparr>rooms = [''0'' \<mapsto> ?r], uid2rids = (\<lambda>_. [])(1 := [''0''], 2 := [''0''], 3 := [''0'']),
            uid2sid = sids0\<rparr>"
  have h: "uid2rids ?s 3 = [''0'']" "rooms ?s ''0'' = Some ?r" "room_id ?r = ''0''"
      "3 \<notin> set (memberIds ?r)" "ownerId ?r \<noteq> 3"
    by (simp_all add: room1_def)
  from leaveMany_dangling_entry_evicts_last_member [OF h] h show ?thesis
    by (auto simp: room1_def room_wf_def)
qed

text \<open>
  C20. Booking a room and then leaving it is a round trip: when the clock value
  names no stored room, \<open>leave\<close> by the booker of the room \<open>book\<close> just
  created succeeds, reports the emptied room with the booker refused, and leaves
  exactly the store there was before the booking (the room key deleted, the
  \<open>LPUSH\<close> of the reverse index undone by the \<open>LREM\<close>).
\<close>

theorem book_then_leave_roundtrip:
  assumes fresh: "rooms s (js_String_nat now) = None" and ok: "book allow u p now s = Inr (r, s1)"
  shows "leave u (room_id r) s1 = Inr (r\<lparr>memberIds := [], refusedIds := [u]\<rparr>, s)"
proof -
  let ?k = "js_String_nat now"
  from ok have r: "r = \<lparr>room_id = ?k, isPublic = p, ownerId = u, memberIds = [u],
      waitingIds = [], refusedIds = []\<rparr>" and s1: "s1 = exec [SET ?k r, LPUSH u ?k] s"
    by (simp_all add: book_Inr)
  have d: "drop_member u r = r\<lparr>memberIds := [], refusedIds := [u]\<rparr>"
    by (simp add: drop_member_def r js_splice1_def)
  have "leave u ?k s1 = Inr (r\<lparr>memberIds := [], refusedIds := [u]\<rparr>,
      exec [DEL ?k, LREM u 1 ?k] (exec [SET ?k r, LPUSH u ?k] s))"
    by (simp add: leave_def leave_plan_def get_def s1 d leave_cmds_def) (simp add: r)
  also have "exec [DEL ?k, LREM u 1 ?k] (exec [SET ?k r, LPUSH u ?k] s) = s"
    using fresh by (simp add: exec_def fun_upd_idem)
  finally show ?thesis by (simp add: r)
qed

theorem book_then_leave_roundtrip_witness:
  "book False 1 True 0 (empty_store sids0) = Inr (room0, store0) \<and>
   leave 1 ''0'' store0 = Inr (room0\<lparr>memberIds := [], refusedIds := [1]\<rparr>, empty_store sids0)"
proof -
  have "rooms (empty_store sids0) (js_String_nat 0) = None" by (simp add: empty_store_def)
  from book_then_leave_roundtrip [OF this book_store0] book_store0 show ?thesis
    by (simp add: room0_def)
qed

text \<open>
  C25. Transferring the ownership and transferring it back is a round trip: on a
  consistent store, when the owner's transfer to a candidate succeeds, the
  candidate's transfer back to the old owner succeeds too and gives back the
  original room and exactly the original store.
\<close>

theorem transferOwnership_roundtrip:
  assumes inv: "store_inv s" and ok: "transferOwnership ow c k s = Inr (r', s')"
  shows "\<exists>r. rooms s k = Some r \<and> transferOwnership c ow k s' = Inr (r, s)"
proof -
  from ok obtain r where r: "rooms s k = Some r" and own: "ownerId r = ow" and ne: "ow \<noteq> c"
    and c: "c \<in> set (memberIds r)" and r': "r' = r\<lparr>ownerId := c\<rparr>"
    and s': "s' = exec [SET (room_id r) r'] s"
    by (auto simp: transferOwnership_Inr)
  have id: "room_id r = k" using store_invD(1) [OF inv r] .
  have ow: "ow \<in> set (memberIds r)" using store_invD(2) [OF inv r] own by (simp add: room_wf_def)
  have rb: "r'\<lparr>ownerId := ow\<rparr> = r" using r' own by simp
  have "exec [SET k r] s' = s" using s' id r by (cases s) (simp add: fun_upd_idem)
  then have "transferOwnership c ow k s' = Inr (r, s)"
    using s' id r' ne ow rb by (simp add: transferOwnership_Inr)
  with r show ?thesis by blast
qed

theorem transferOwnership_roundtrip_witness:
  "transferOwnership 1 2 ''0'' store1 = Inr (room1\<lparr>ownerId := 2\<rparr>, exec [SET ''0'' (room1\<lparr>ownerId := 2\<rparr>)] store1) \<and>
   transferOwnership 2 1 ''0'' (exec [SET ''0'' (room1\<lparr>ownerId := 2\<rparr>)] store1) = Inr (room1, store1)"
proof -
  have t: "transferOwnership 1 2 ''0'' store1 = Inr (room1\<lparr>ownerId := 2\<rparr>, exec [SET ''0'' (room1\<lparr>ownerId := 2\<rparr>)] store1)"
    by (simp add: transferOwnership_Inr store1_def room1_def)
  from transferOwnership_roundtrip [OF store1_inv t] t show ?thesis
    by (simp add: store1_def room1_def)
qed

text \<open>
  Leaving all rooms is idempotent on a consistent store: after
  \<open>leaveMany u []\<close>, a second \<open>leaveMany u []\<close> finds the user's index empty,
  leaves nothing and changes nothing.
\<close>

theorem leaveMany_idempotent:
  assumes inv: "store_inv s" and lm: "leaveMany u [] s = (rs, s')"
  shows "leaveMany u [] s' = ([], s')"
  using leaveMany_all [OF inv lm] by (simp add: leaveMany_def leaveMany_plan_def)

theorem leaveMany_idempotent_witness:
  "leaveMany 2 [] store1 = ([room1\<lparr>memberIds := [1], refusedIds := [2]\<rparr>], snd (leaveMany 2 [] store1)) \<and>
   leaveMany 2 [] (snd (leaveMany 2 [] store1)) = ([], snd (leaveMany 2 [] store1))"
proof -
  have lm: "leaveMany 2 [] store1 = ([room1\<lparr>memberIds := [1], refusedIds := [2]\<rparr>], snd (leaveMany 2 [] store1))"
    by (simp add: leaveMany_def leaveMany_plan_def store1_def store0_def empty_store_def room1_def
        leave_cmds_def drop_member_def js_splice1_def Let_def)
  from leaveMany_idempotent [OF store1_inv lm] lm show ?thesis by simp
qed

end
