(* ===== verification/Concurrency.thy ===== *)
theory Concurrency
  imports Behaviour
begin

text \<open>
  Concurrent request handlers (spec section 5). Every writing method of
  RoomService reads the store, computes the new room in memory and only then sends
  its pipeline; nothing guards the write against a change made after the read. The
  model runs two such methods as two handlers whose reads both happen before
  either pipeline is executed, the pipelines then executed in order: the
  interleaving the event loop allows whenever both handlers are suspended on their
  reads. \<open>X_plan\<close> is the read half of a method, \<open>exec\<close> of its pipeline the
  write half, so the sequential method is the special case where nothing runs in
  between. The theory shows four consequences: two joins lose an update (C17), a
  booking in the millisecond of an existing room replaces it (C18), a join racing
  the last member's leave locks the joiner out (C23), and the last two members
  leaving together leave a room nobody's index names (C28).
\<close>

subsection \<open>Definitions\<close>

definition run_interleaved ::
  "(store \<Rightarrow> error + ('a \<times> cmd list)) \<Rightarrow> (store \<Rightarrow> error + ('b \<times> cmd list)) \<Rightarrow> store \<Rightarrow>
   (error + 'a) \<times> (error + 'b) \<times> store" where
  "run_interleaved p q s =
     (let a = p s; b = q s;
          s1 = (case a of Inl _ \<Rightarrow> s | Inr (_, cs) \<Rightarrow> exec cs s);
          s2 = (case b of Inl _ \<Rightarrow> s1 | Inr (_, cs) \<Rightarrow> exec cs s1)
      in (map_sum id fst a, map_sum id fst b, s2))"

subsection \<open>Shared facts\<close>

lemma join_plan_Inr:
  assumes "rooms s k = Some r" "isPublic r" "uid2rids s u = []"
  shows "join_plan False u k s = Inr (join_room u r, [SET (room_id r) (join_room u r), LPUSH u (room_id r)])"
  using assms by (simp add: join_plan_def get_def isMemberOfAny_def join_room_def Let_def)

lemma leave_plan_member:
  "rooms s k = Some r \<Longrightarrow> u \<in> set (memberIds r) \<Longrightarrow>
   leave_plan u k s = Inr (leave_cmds u (drop_member u r))"
  by (simp add: leave_plan_def get_def)

subsection \<open>Lost update\<close>

text \<open>
  C17. Two users who are in no room join the same public room concurrently: both
  handlers read the room before either writes. Both calls report success, but the
  second pipeline overwrites the room written by the first, so the first joiner is
  missing from the stored room while its reverse index says it is in it: the
  store no longer satisfies the invariant (spec section 5's lost update).
\<close>

theorem concurrent_joins_lose_update:
  assumes inv: "store_inv s" and r: "rooms s k = Some r" and pub: "isPublic r"
    and f1: "uid2rids s u1 = []" and f2: "uid2rids s u2 = []" and ne: "u1 \<noteq> u2"
  shows "\<exists>r1 r2 s'. run_interleaved (join_plan False u1 k) (join_plan False u2 k) s =
             (Inr r1, Inr r2, s') \<and>
           u1 \<in> set (memberIds r1) \<and> rooms s' k = Some r2 \<and> u1 \<notin> set (memberIds r2) \<and>
           k \<in> set (uid2rids s' u1) \<and> \<not> store_inv s'"
proof -
  have id: "room_id r = k" using store_invD(1) [OF inv r] .
  have n1: "u1 \<notin> set (memberIds r)" using store_inv_index_member [OF inv r, of u1] f1 by simp
  let ?s' = "exec [SET k (join_room u2 r), LPUSH u2 k] (exec [SET k (join_room u1 r), LPUSH u1 k] s)"
  have run: "run_interleaved (join_plan False u1 k) (join_plan False u2 k) s =
      (Inr (join_room u1 r), Inr (join_room u2 r), ?s')"
    using join_plan_Inr [OF r pub f1] join_plan_Inr [OF r pub f2] id
    by (simp add: run_interleaved_def Let_def)
  have rk: "rooms ?s' k = Some (join_room u2 r)" by simp
  have gone: "u1 \<notin> set (memberIds (join_room u2 r))" using n1 ne by (simp add: join_room_def Let_def)
  have ix: "k \<in> set (uid2rids ?s' u1)" using ne by simp
  have "\<not> store_inv ?s'"
    using store_invD(4) [of ?s' k u1] rk gone ix by auto
  with run rk gone ix show ?thesis by (auto simp: join_room_def Let_def)
qed

theorem concurrent_joins_lose_update_witness:
  "store_inv store0 \<and> rooms store0 ''0'' = Some room0 \<and> isPublic room0 \<and>
   uid2rids store0 2 = [] \<and> uid2rids store0 3 = [] \<and>
   (\<exists>r1 r2 s'. run_interleaved (join_plan False 2 ''0'') (join_plan False 3 ''0'') store0 =
      (Inr r1, Inr r2, s') \<and> 2 \<in> set (memberIds r1) \<and> rooms s' ''0'' = Some r2 \<and>
      2 \<notin> set (memberIds r2) \<and> \<not> store_inv s')"
proof -
  have h: "rooms store0 ''0'' = Some room0" "isPublic room0" "uid2rids store0 2 = []"
      "uid2rids store0 3 = []" "(2::int) \<noteq> 3"
    by (simp_all add: store0_def room0_def empty_store_def)
  from concurrent_joins_lose_update [OF store0_inv h] h store0_inv show ?thesis
    by blast
qed

subsection \<open>Same-millisecond bookings\<close>

text \<open>
  C18. A room id is \<open>String(Date.now())\<close> and \<open>book\<close> writes it with a plain
  \<open>SET\<close>: a booking made in the millisecond of an existing room (two handlers on
  two processes, or two calls within one millisecond) replaces that room. A user of
  the old room is then missing from the stored room although the reverse index still
  lists it, so the store no longer satisfies the invariant.
\<close>

theorem book_same_millisecond_overwrites:
  assumes inv: "store_inv s" and old: "rooms s (js_String_nat now) = Some r0"
    and v: "v \<in> set (memberIds r0)" "v \<noteq> u"
    and ok: "book allow u p now s = Inr (r, s')"
  shows "rooms s' (js_String_nat now) = Some r \<and> v \<notin> set (memberIds r) \<and>
         js_String_nat now \<in> set (uid2rids s' v) \<and> \<not> store_inv s'"
proof -
  let ?k = "js_String_nat now"
  from ok have r: "r = \<lparr>room_id = ?k, isPublic = p, ownerId = u, memberIds = [u],
      waitingIds = [], refusedIds = []\<rparr>" and s': "s' = exec [SET ?k r, LPUSH u ?k] s"
    by (simp_all add: book_Inr)
  have ix: "?k \<in> set (uid2rids s' v)"
    using store_inv_index_member [OF inv old, of v] v s' by simp
  have rk: "rooms s' ?k = Some r" using s' by simp
  have gone: "v \<notin> set (memberIds r)" using v r by simp
  have "\<not> store_inv s'" using store_invD(4) [of s' ?k v] rk gone ix by auto
  with rk gone ix show ?thesis by simp
qed

theorem book_same_millisecond_overwrites_witness:
  "store_inv store1 \<and> rooms store1 (js_String_nat 0) = Some room1 \<and> (2::int) \<in> set (memberIds room1) \<and>
   (\<exists>r s'. book False 3 False 0 store1 = Inr (r, s') \<and>
     rooms s' ''0'' = Some r \<and> 2 \<notin> set (memberIds r) \<and> \<not> store_inv s')"
proof -
  have k: "js_String_nat 0 = ''0''" by (simp add: js_String_nat.simps digit_char_def)
  have h: "rooms store1 (js_String_nat 0) = Some room1" "(2::int) \<in> set (memberIds room1)" "(2::int) \<noteq> 3"
    using k by (simp_all add: store1_def room1_def)
  obtain r s' where ok: "book False 3 False 0 store1 = Inr (r, s')"
    by (simp add: book_Inr store1_def store0_def empty_store_def)
  from book_same_millisecond_overwrites [OF store1_inv h ok] store1_inv h ok k show ?thesis by auto
qed

subsection \<open>A join racing the last member's leave\<close>

text \<open>
  C23. A user in no room joins a public room while its only member leaves it, both
  handlers reading the room first. Both calls succeed; the leave's pipeline, sent
  last, deletes the room, but the joiner's reverse index still names it. With the
  single-room policy on, the joiner is then locked out: \<open>book\<close> and every
  \<open>join\<close> are rejected because the index is not empty, \<open>leave\<close> of the
  deleted room fails, and \<open>leaveMany\<close>, which looks the index's rooms up before
  removing anything, finds no room and leaves the store as it is.
\<close>

theorem concurrent_join_leave_locks_out:
  assumes inv: "store_inv s" and r: "rooms s k = Some r" and pub: "isPublic r"
    and only: "memberIds r = [u]" and free: "uid2rids s v = []" and vu: "v \<noteq> u"
  shows "\<exists>r1 r2 s'. run_interleaved (join_plan False v k) (leave_plan u k) s = (Inr r1, Inr r2, s') \<and>
           v \<in> set (memberIds r1) \<and> rooms s' k = None \<and> uid2rids s' v = [k] \<and>
           (\<forall>p now. book False v p now s' = Inl LeaveBeforeCreate) \<and>
           (\<forall>k'. join False v k' s' = Inl LeaveBeforeJoin) \<and>
           leave v k s' = Inl RoomNotExist \<and> leaveMany v [] s' = ([], s')"
proof -
  have id: "room_id r = k" using store_invD(1) [OF inv r] .
  let ?d = "drop_member u r"
  have d: "memberIds ?d = []" using only by (simp add: drop_member_def js_splice1_def)
  have lp: "leave_plan u k s = Inr (?d, [DEL k, LREM u 1 k])"
    using r only d id by (simp add: leave_plan_def get_def leave_cmds_def)
  let ?s' = "exec [DEL k, LREM u 1 k] (exec [SET k (join_room v r), LPUSH v k] s)"
  have run: "run_interleaved (join_plan False v k) (leave_plan u k) s =
      (Inr (join_room v r), Inr ?d, ?s')"
    using join_plan_Inr [OF r pub free] lp id by (simp add: run_interleaved_def)
  have gone: "rooms ?s' k = None" by simp
  have ix: "uid2rids ?s' v = [k]" using vu free by simp
  have "book False v p now ?s' = Inl LeaveBeforeCreate" for p now
    using ix by (simp add: book_def book_plan_def isMemberOfAny_def)
  moreover have "join False v k' ?s' = Inl LeaveBeforeJoin" for k'
    using ix by (simp add: join_def join_plan_def isMemberOfAny_def)
  moreover have "leave v k ?s' = Inl RoomNotExist"
    using gone by (simp add: leave_def leave_plan_def get_def)
  moreover have "leaveMany v [] ?s' = ([], ?s')"
    using ix gone by (simp add: leaveMany_def leaveMany_plan_def)
  moreover have "v \<in> set (memberIds (join_room v r))" by (simp add: join_room_def Let_def)
  ultimately show ?thesis using run gone ix by blast
qed

theorem concurrent_join_leave_locks_out_witness:
  "\<exists>r1 r2 s'. run_interleaved (join_plan False 2 ''0'') (leave_plan 1 ''0'') store0 = (Inr r1, Inr r2, s') \<and>
     rooms s' ''0'' = None \<and> uid2rids s' 2 = [''0''] \<and>
     book False 2 True 5 s' = Inl LeaveBeforeCreate \<and> leaveMany 2 [] s' = ([], s')"
proof -
  have h: "rooms store0 ''0'' = Some room0" "isPublic room0" "memberIds room0 = [1]"
      "uid2rids store0 2 = []" "(2::int) \<noteq> 1"
    by (simp_all add: store0_def room0_def empty_store_def)
  from concurrent_join_leave_locks_out [OF store0_inv h] show ?thesis by blast
qed

subsection \<open>The last two members leaving together\<close>

text \<open>
  C28. The last two members of a room leave it concurrently, both handlers reading
  the room first. Each sees the other still in the room, so neither deletes it; the
  second pipeline writes back the room with the first leaver as its only member. The
  room outlives both leaves, kept by a member whose reverse index no longer names it,
  and the store no longer satisfies the invariant (spec section 4: a room is deleted
  when its last member leaves).
\<close>

theorem concurrent_leaves_keep_ghost_room:
  assumes inv: "store_inv s" and r: "rooms s k = Some r" and two: "memberIds r = [u1, u2]"
  shows "\<exists>r1 r2 s'. run_interleaved (leave_plan u1 k) (leave_plan u2 k) s = (Inr r1, Inr r2, s') \<and>
           memberIds r1 = [u2] \<and> memberIds r2 = [u1] \<and> rooms s' k = Some r2 \<and>
           k \<notin> set (uid2rids s' u1) \<and> k \<notin> set (uid2rids s' u2) \<and> \<not> store_inv s'"
proof -
  have id: "room_id r = k" using store_invD(1) [OF inv r] .
  have ne: "u1 \<noteq> u2" using store_invD(2) [OF inv r] two by (simp add: room_wf_def)
  let ?d1 = "drop_member u1 r" and ?d2 = "drop_member u2 r"
  have m1: "memberIds ?d1 = [u2]" and m2: "memberIds ?d2 = [u1]"
    using js_splice1_indexOf_present [of u1 "memberIds r"] js_splice1_indexOf_present [of u2 "memberIds r"]
      two ne by (simp_all add: drop_member_def del: js_indexOf.simps)
  define r1 where "r1 = ?d1\<lparr>ownerId := (if u1 = ownerId ?d1 then hd (memberIds ?d1) else ownerId ?d1)\<rparr>"
  define r2 where "r2 = ?d2\<lparr>ownerId := (if u2 = ownerId ?d2 then hd (memberIds ?d2) else ownerId ?d2)\<rparr>"
  have i1: "room_id ?d1 = k" and i2: "room_id ?d2 = k" using id by (simp_all add: drop_member_def)
  have c1: "leave_cmds u1 ?d1 = (r1, [SET k r1, LREM u1 1 k])"
    unfolding leave_cmds_def Let_def r1_def using m1 i1 by simp
  have c2: "leave_cmds u2 ?d2 = (r2, [SET k r2, LREM u2 1 k])"
    unfolding leave_cmds_def Let_def r2_def using m2 i2 by simp
  have mr: "memberIds r1 = [u2]" "memberIds r2 = [u1]"
    using m1 m2 by (simp_all add: r1_def r2_def)
  let ?s' = "exec [SET k r2, LREM u2 1 k] (exec [SET k r1, LREM u1 1 k] s)"
  have run: "run_interleaved (leave_plan u1 k) (leave_plan u2 k) s = (Inr r1, Inr r2, ?s')"
    using leave_plan_member [OF r, of u1] leave_plan_member [OF r, of u2] c1 c2 two
    by (simp add: run_interleaved_def)
  have rk: "rooms ?s' k = Some r2" by simp
  have ix: "k \<notin> set (uid2rids ?s' u1)" "k \<notin> set (uid2rids ?s' u2)"
    using ne store_invD(3) [OF inv, of u1] store_invD(3) [OF inv, of u2]
    by (simp_all add: set_remove1_distinct_member)
  have "\<not> store_inv ?s'"
    using store_invD(4) [of ?s' k u1] rk mr ix by auto
  with run rk mr ix show ?thesis by blast
qed

text \<open>Users 1 and 2, the two members of room ''0'' of \<open>store1\<close>, leave it
  together: room ''0'' stays stored with user 1 as its member.\<close>

theorem concurrent_leaves_keep_ghost_room_witness:
  "\<exists>r1 r2 s'. run_interleaved (leave_plan 1 ''0'') (leave_plan 2 ''0'') store1 = (Inr r1, Inr r2, s') \<and>
     rooms s' ''0'' = Some r2 \<and> memberIds r2 = [1] \<and> ''0'' \<notin> set (uid2rids s' 1) \<and> \<not> store_inv s'"
proof -
  have h: "rooms store1 ''0'' = Some room1" "memberIds room1 = [1, 2]"
    by (simp_all add: store1_def room1_def)
  from concurrent_leaves_keep_ghost_room [OF store1_inv h] show ?thesis by blast
qed

end
