(* ===== verification/Abstraction.thy ===== *)
theory Abstraction
  imports Behaviour
begin

text \<open>
  An abstract specification of the coordinator: the state is the set of members of
  each room (the empty set where no room is stored), and each call changes it as
  spec section 4.2 says, with the single-room policy on: \<open>book\<close> creates a room
  whose only member is the booker, \<open>join\<close> adds the joiner, \<open>leave\<close> and
  \<open>kick\<close> remove one member, \<open>leaveMany\<close> removes the user from every room,
  accepting an invitation moves the guest to the invited room, and ownership
  transfers and invitations leave the membership alone. \<open>members_of\<close> abstracts a
  store to it; the refinement theorem says that every successful call of the model
  changes the abstraction as \<open>abs_step\<close> prescribes.
\<close>

subsection \<open>Definitions\<close>

definition members_of :: "store \<Rightarrow> rid \<Rightarrow> uid set" where
  "members_of s k = (case rooms s k of None \<Rightarrow> {} | Some r \<Rightarrow> set (memberIds r))"

fun abs_step :: "nat \<Rightarrow> op \<Rightarrow> (rid \<Rightarrow> uid set) \<Rightarrow> rid \<Rightarrow> uid set" where
  "abs_step now (Book u p) M = M(js_String_nat now := {u})"
| "abs_step now (Join u k) M = M(k := insert u (M k))"
| "abs_step now (Leave u k) M = M(k := M k - {u})"
| "abs_step now (LeaveAll u) M = (\<lambda>k. M k - {u})"
| "abs_step now (Kick kr m k) M = M(k := M k - {m})"
| "abs_step now (TransferOwnership ow c k) M = M"
| "abs_step now (Invite i g k) M = M"
| "abs_step now (RespondInvitation g acc k) M =
     (if acc then (\<lambda>k'. M k' - {g})(k := insert g (M k)) else M)"

text \<open>The contract of \<open>leave(userId, roomId)\<close> in the spec's operation table
  (section 4): a member is removed from \<open>memberIds\<close> and appended to
  \<open>refusedIds\<close>; the room is deleted if no member remains, and otherwise
  ownership passes to the member at position 0 if the leaver owned the room; the
  room leaves the user's index. It is written with \<open>remove1\<close> and map updates,
  independently of the \<open>splice\<close> and the pipeline of the code.\<close>

definition leave_spec :: "uid \<Rightarrow> rid \<Rightarrow> store \<Rightarrow> error + (room \<times> store)" where
  "leave_spec u k s =
     (case rooms s k of
        None \<Rightarrow> Inl RoomNotExist
      | Some r \<Rightarrow>
          if u \<notin> set (memberIds r) then Inl NotInRoom
          else
            let ms = remove1 u (memberIds r);
                r' = r\<lparr>memberIds := ms, refusedIds := refusedIds r @ [u],
                       ownerId := (if ms \<noteq> [] \<and> u = ownerId r then hd ms else ownerId r)\<rparr>
            in Inr (r', s\<lparr>rooms := (rooms s)(k := if ms = [] then None else Some r'),
                         uid2rids := (uid2rids s)(u := remove1 k (uid2rids s u))\<rparr>))"

subsection \<open>The abstraction is the reverse index\<close>

lemma members_of_index: "store_inv s \<Longrightarrow> u \<in> members_of s k \<longleftrightarrow> k \<in> set (uid2rids s u)"
  by (auto simp: members_of_def store_invD(4) split: option.splits)

lemma members_of_eqI:
  assumes inv: "store_inv s'" and ix: "\<And>v k. k \<in> set (uid2rids s' v) \<longleftrightarrow> v \<in> M k"
  shows "members_of s' = M"
  using members_of_index [OF inv] ix by (auto simp: fun_eq_iff)

subsection \<open>How each call changes the reverse index\<close>

lemma set_remove1_index: "store_inv s \<Longrightarrow> set (remove1 k (uid2rids s u)) = set (uid2rids s u) - {k}"
  using store_invD(3) by simp

lemma leave_index:
  assumes inv: "store_inv s" and ok: "leave u k s = Inr (r', s')"
  shows "uid2rids s' = (uid2rids s)(u := remove1 k (uid2rids s u))"
proof -
  from ok obtain r cs where r: "rooms s k = Some r" and u: "u \<in> set (memberIds r)"
    and lc: "leave_cmds u (drop_member u r) = (r', cs)" and s': "s' = exec cs s"
    by (auto simp: leave_Inr)
  from leave_cmds_step [OF inv r u lc] s' show ?thesis by simp
qed

lemma join_index:
  assumes inv: "store_inv s" and ok: "join allow u k s = Inr (r', s')"
  shows "uid2rids s' = (uid2rids s)(u := k # uid2rids s u)"
proof -
  from ok obtain r where r: "rooms s k = Some r" and r': "r' = join_room u r"
    and s': "s' = exec [SET (room_id r') r', LPUSH u (room_id r')] s"
    by (auto simp: join_Inr)
  have "room_id r' = k" using store_invD(1) [OF inv r] r' by (simp add: join_room_def Let_def)
  with s' show ?thesis by simp
qed

lemma kick_index:
  assumes inv: "store_inv s" and ok: "kick kr m k s = Inr (res, s')"
  shows "uid2rids s' = (uid2rids s)(m := remove1 k (uid2rids s m))"
proof (cases "kr = m")
  case True
  with ok obtain r' where "leave kr k s = Inr (r', s')"
    by (auto simp: kick_self split: sum.splits)
  with True show ?thesis using leave_index [OF inv] by blast
next
  case False
  with ok obtain r where r: "rooms s k = Some r"
    and s': "s' = exec [SET (room_id r) (drop_member m r), LREM m 1 (room_id r)] s"
    by (auto simp: kick_other_Inr)
  with store_invD(1) [OF inv r] show ?thesis by simp
qed

lemma respondInvitation_index:
  assumes inv: "store_inv s" and ok: "respondInvitation False g acc k s = Inr (res, s')"
  shows "uid2rids s' = (if acc then (uid2rids s)(g := [k]) else uid2rids s)"
proof -
  obtain r where r: "rooms s k = Some r"
    and acc_s': "acc \<Longrightarrow> s' = exec [LPUSH g (room_id r),
            SET (room_id r) (r\<lparr>waitingIds := remove1 g (waitingIds r), memberIds := memberIds r @ [g]\<rparr>)]
          (if \<not> False \<and> isMemberOfAny s g then snd (leaveMany g [] s) else s)"
    and dec_s': "\<not> acc \<Longrightarrow> s' = exec [SET (room_id r)
            (r\<lparr>waitingIds := remove1 g (waitingIds r), refusedIds := refusedIds r @ [g]\<rparr>)] s"
    using respondInvitation_Inr [OF ok] by blast
  have id: "room_id r = k" using store_invD(1) [OF inv r] .
  define s1 where "s1 = (if isMemberOfAny s g then snd (leaveMany g [] s) else s)"
  have s1: "uid2rids s1 = (uid2rids s)(g := [])"
  proof (cases "isMemberOfAny s g")
    case True
    obtain rs s2 where lm: "leaveMany g [] s = (rs, s2)" by fastforce
    from leaveMany_all [OF inv lm] True show ?thesis by (auto simp: s1_def lm fun_eq_iff)
  next
    case False
    then show ?thesis by (auto simp: s1_def isMemberOfAny_def fun_eq_iff)
  qed
  show ?thesis
  proof (cases acc)
    case True
    with acc_s' id s1 show ?thesis by (simp add: s1_def [symmetric])
  next
    case False
    with dec_s' show ?thesis by simp
  qed
qed

subsection \<open>leave and leaveMany against the spec's leave\<close>

lemma leave_member_result:
  assumes r: "rooms s k = Some r" and id: "room_id r = k" and mem: "u \<in> set (memberIds r)"
  shows "leave_spec u k s =
         Inr (fst (leave_cmds u (drop_member u r)), exec (snd (leave_cmds u (drop_member u r))) s)"
proof -
  define ms where "ms = remove1 u (memberIds r)"
  have dm: "drop_member u r = r\<lparr>memberIds := ms, refusedIds := refusedIds r @ [u]\<rparr>"
    using mem by (simp add: drop_member_def js_splice1_indexOf_present ms_def)
  show ?thesis
  proof (cases "ms = []")
    case True
    then show ?thesis using r id mem by (simp add: leave_spec_def leave_cmds_def dm Let_def ms_def [symmetric])
  next
    case False
    then show ?thesis using r id mem by (simp add: leave_spec_def leave_cmds_def dm Let_def ms_def [symmetric])
  qed
qed

text \<open>C26. On a consistent store \<open>leave\<close> is the spec's \<open>leave\<close>: the same
  errors for a missing room and for a non-member, and for a member the same room and
  the same store. \<open>leaveMany\<close> of that single room, whose loop repeats the code of
  \<open>leave\<close>, gives the same room and store.\<close>

theorem leave_meets_spec:
  assumes inv: "store_inv s"
  shows "leave u k s = leave_spec u k s \<and>
         (\<forall>r' s'. leave_spec u k s = Inr (r', s') \<longrightarrow> leaveMany u [k] s = ([r'], s'))"
proof (cases "rooms s k")
  case None
  then show ?thesis by (simp add: leave_def leave_plan_def get_def leave_spec_def)
next
  case (Some r)
  have id: "room_id r = k" using store_invD(1) [OF inv Some] .
  show ?thesis
  proof (cases "u \<in> set (memberIds r)")
    case False
    with Some show ?thesis by (simp add: leave_def leave_plan_def get_def leave_spec_def)
  next
    case True
    have "leave u k s = Inr (fst (leave_cmds u (drop_member u r)), exec (snd (leave_cmds u (drop_member u r))) s)"
      using Some True by (simp add: leave_def leave_plan_def get_def commit_def split_def)
    moreover have "leaveMany u [k] s =
        ([fst (leave_cmds u (drop_member u r))], exec (snd (leave_cmds u (drop_member u r))) s)"
      using Some by (simp add: leaveMany_def leaveMany_plan_def split_def Let_def)
    ultimately show ?thesis using leave_member_result [OF Some id True] by simp
  qed
qed

text \<open>User 2 leaves room ''0'' of members [1, 2]: \<open>leave\<close> and \<open>leaveMany\<close> of
  that room both give the spec's result, user 2 refused and room ''0'' kept with
  member 1.\<close>

theorem leave_meets_spec_witness:
  "store_inv store1 \<and>
   leave_spec 2 ''0'' store1 = Inr (room1\<lparr>memberIds := [1], refusedIds := [2]\<rparr>,
      store1\<lparr>rooms := (rooms store1)(''0'' := Some (room1\<lparr>memberIds := [1], refusedIds := [2]\<rparr>)),
             uid2rids := (uid2rids store1)(2 := [])\<rparr>) \<and>
   leave 2 ''0'' store1 = leave_spec 2 ''0'' store1 \<and>
   leaveMany 2 [''0''] store1 = ([room1\<lparr>memberIds := [1], refusedIds := [2]\<rparr>],
      store1\<lparr>rooms := (rooms store1)(''0'' := Some (room1\<lparr>memberIds := [1], refusedIds := [2]\<rparr>)),
             uid2rids := (uid2rids store1)(2 := [])\<rparr>)"
proof -
  have sp: "leave_spec 2 ''0'' store1 = Inr (room1\<lparr>memberIds := [1], refusedIds := [2]\<rparr>,
      store1\<lparr>rooms := (rooms store1)(''0'' := Some (room1\<lparr>memberIds := [1], refusedIds := [2]\<rparr>)),
             uid2rids := (uid2rids store1)(2 := [])\<rparr>)"
    by (simp add: leave_spec_def store1_def store0_def room1_def empty_store_def Let_def)
  from leave_meets_spec [OF store1_inv, of 2 "''0''"] sp store1_inv show ?thesis by simp
qed

subsection \<open>Refinement\<close>

lemma step_index_abs:
  assumes inv: "store_inv s" and kb: "keys_before s t" and ok: "step False t a s = Inr s'"
  shows "k \<in> set (uid2rids s' v) \<longleftrightarrow> v \<in> abs_step t a (members_of s) k"
proof -
  have d: "\<And>v. distinct (uid2rids s v)" using store_invD(3) [OF inv] .
  have M: "\<And>v k. v \<in> members_of s k \<longleftrightarrow> k \<in> set (uid2rids s v)" using members_of_index [OF inv] .
  from ok show ?thesis
  proof (cases rule: step_InrE)
    case (Book u p r')
    have fresh: "js_String_nat t \<notin> set (uid2rids s v)"
      using keys_before_fresh [OF kb] store_invD(4) [OF inv] by auto
    from Book(2) have "uid2rids s' = (uid2rids s)(u := js_String_nat t # uid2rids s u)" and "uid2rids s u = []"
      by (simp_all add: book_Inr)
    with Book(1) M fresh show ?thesis by auto
  next
    case (Join u k1 r')
    from join_index [OF inv Join(2)] Join(1) M show ?thesis by auto
  next
    case (Leave u k1 r')
    from leave_index [OF inv Leave(2)] Leave(1) M d show ?thesis by auto
  next
    case (LeaveAll u rs)
    from leaveMany_all [OF inv LeaveAll(2)] LeaveAll(1) M show ?thesis by (cases "v = u") auto
  next
    case (Kick kr m k1 res)
    from kick_index [OF inv Kick(2)] Kick(1) M d show ?thesis by auto
  next
    case (TransferOwnership ow c k1 r')
    then have "uid2rids s' = uid2rids s" by (auto simp: transferOwnership_Inr)
    with TransferOwnership(1) M show ?thesis by simp
  next
    case (Invite i g k1 res)
    then have "uid2rids s' = uid2rids s" by (auto simp: invite_Inr)
    with Invite(1) M show ?thesis by simp
  next
    case (RespondInvitation g acc k1 res)
    from respondInvitation_index [OF inv RespondInvitation(2)] RespondInvitation(1) M show ?thesis by auto
  qed
qed

text \<open>
  C19. With the single-room policy on, every call that succeeds in a reachable state
  changes the members of the rooms exactly as the abstract specification
  \<open>abs_step\<close> says: the service's rooms, index updates and pipelines implement
  the membership operations of the spec.
\<close>

theorem step_refines_abs_step:
  assumes reach: "reachable False s t" and ok: "step False t a s = Inr s'"
  shows "members_of s' = abs_step t a (members_of s)"
proof -
  have si: "sys_inv False s t" by (rule reachable_sys_inv [OF reach])
  have inv: "store_inv s" and kb: "keys_before s t" using si by (auto simp: sys_inv_def)
  have inv': "store_inv s'" using step_sys_inv [OF si ok] by (simp add: sys_inv_def)
  show ?thesis by (rule members_of_eqI [OF inv']) (rule step_index_abs [OF inv kb ok])
qed

theorem step_refines_abs_step_witness:
  "reachable False (empty_store sids0) 0 \<and> step False 0 (Book 1 True) (empty_store sids0) = Inr store0 \<and>
   members_of store0 = abs_step 0 (Book 1 True) (members_of (empty_store sids0)) \<and>
   members_of store0 ''0'' = {1}"
proof -
  have r: "reachable False (empty_store sids0) 0" by (rule reachable.init)
  have st: "step False 0 (Book 1 True) (empty_store sids0) = Inr store0"
    by (simp add: book_store0 store_of_def)
  have "members_of store0 ''0'' = {1}" by (simp add: members_of_def store0_def room0_def)
  with step_refines_abs_step [OF r st] r st show ?thesis by simp
qed

end
