(* ===== verification/Gateway.thy ===== *)
theory Gateway
  imports Behaviour
begin

text \<open>
  The socket.io gateway \<open>TextChatGateway\<close> (src/src/module/chat/text-chat.gateway.ts)
  as far as it drives the coordinator. A handler receives the acting user's id from
  the session layer, calls one RoomService method, makes the client's socket join
  the socket.io room of the result, and emits a \<open>ReceiveRoomChanges\<close> event. The
  model of \<open>handleCreateRoom\<close> returns the socket.io room the client joins and the
  event it emits, with the store the call leaves.
\<close>

subsection \<open>Definitions\<close>

datatype room_event = Create | JoinEv | LeaveEv | KickEv | OwnerEv | InviteEv

record room_changes =
  event :: room_event
  actorId :: uid
  changed_room :: rid

definition handleCreateRoom ::
  "bool \<Rightarrow> nat \<Rightarrow> uid \<Rightarrow> store \<Rightarrow> error + ((rid \<times> room_changes) \<times> store)" where
  "handleCreateRoom allow now userId s =
     (case book allow userId False now s of
        Inl e \<Rightarrow> Inl e
      | Inr (room, s') \<Rightarrow>
          Inr ((room_id room, \<lparr>event = Create, actorId = userId, changed_room = room_id room\<rparr>), s'))"

subsection \<open>Rooms created through the gateway\<close>

lemma handleCreateRoom_Inr:
  "handleCreateRoom allow now u s = Inr ((k, ev), s') \<longleftrightarrow>
     (\<exists>r. book allow u False now s = Inr (r, s') \<and> k = room_id r \<and>
          ev = \<lparr>event = Create, actorId = u, changed_room = room_id r\<rparr>)"
  by (auto simp: handleCreateRoom_def split: sum.splits)

text \<open>
  C21. The create-room handler calls \<open>book(client.userId)\<close> without the second
  argument, so every room it creates is private (the default \<open>isPublic = false\<close>).
  Since \<open>join\<close> admits only public rooms, every later \<open>join\<close> of that room is
  rejected: with \<open>RoomPrivate\<close>, or with \<open>LeaveBeforeJoin\<close> when the single-room
  policy is on and the joiner is already in a room. An invitation is the only way in.
\<close>

theorem created_room_rejects_join:
  assumes ok: "handleCreateRoom allow now u s = Inr ((k, ev), s')"
  shows "rooms s' k \<noteq> None \<and>
         join allow' v k s' = Inl (if \<not> allow' \<and> uid2rids s' v \<noteq> [] then LeaveBeforeJoin else RoomPrivate)"
proof -
  from ok obtain r where b: "book allow u False now s = Inr (r, s')" and k: "k = room_id r"
    by (auto simp: handleCreateRoom_Inr)
  from b have r: "room_id r = js_String_nat now" "\<not> isPublic r"
    and rk: "rooms s' (js_String_nat now) = Some r"
    by (simp_all add: book_Inr)
  with k show ?thesis
    by (auto simp: join_def join_plan_def get_def isMemberOfAny_def commit_def)
qed

theorem created_room_rejects_join_witness:
  "handleCreateRoom False 0 1 (empty_store sids0) = Inr ((''0'', \<lparr>event = Create, actorId = 1, changed_room = ''0''\<rparr>),
      exec [SET ''0'' (room0\<lparr>isPublic := False\<rparr>), LPUSH 1 ''0''] (empty_store sids0)) \<and>
   join False 2 ''0'' (exec [SET ''0'' (room0\<lparr>isPublic := False\<rparr>), LPUSH 1 ''0''] (empty_store sids0)) = Inl RoomPrivate"
proof -
  have h: "handleCreateRoom False 0 1 (empty_store sids0) = Inr ((''0'', \<lparr>event = Create, actorId = 1, changed_room = ''0''\<rparr>),
      exec [SET ''0'' (room0\<lparr>isPublic := False\<rparr>), LPUSH 1 ''0''] (empty_store sids0))"
    by (simp add: handleCreateRoom_def book_def book_plan_def isMemberOfAny_def empty_store_def Let_def
        js_String_nat.simps digit_char_def room0_def)
  from created_room_rejects_join [OF h, of False 2] h show ?thesis by (simp add: empty_store_def)
qed

end
