(* ===== verification/MultiRoom.thy ===== *)
theory MultiRoom
  imports Behaviour
begin

text \<open>
  The coordinator with \<open>allowJoinMultipleRooms\<close> on. Then \<open>join\<close> admits a
  member a second time (the duplicate of Behaviour), the reverse index may list a
  room twice, and \<open>store_inv\<close> no longer holds. What remains true is a
  counting invariant: every stored room has its owner among its members and no
  member also waiting, and the reverse index of a user lists a room at most as
  often as the user occurs among its members, so the index never names a room the
  user is not in. This theory proves that every reachable state with the policy
  off satisfies it.
\<close>

subsection \<open>Definitions\<close>

definition room_wf_multi :: "room \<Rightarrow> bool" where
  "room_wf_multi r \<longleftrightarrow>
     ownerId r \<in> set (memberIds r) \<and> distinct (waitingIds r) \<and>
     set (memberIds r) \<inter> set (waitingIds r) = {}"

definition mcount :: "store \<Rightarrow> uid \<Rightarrow> rid \<Rightarrow> nat" where
  "mcount s u k = (case rooms s k of None \<Rightarrow> 0 | Some r \<Rightarrow> count_list (memberIds r) u)"

definition store_inv_multi :: "store \<Rightarrow> bool" where
  "store_inv_multi s \<longleftrightarrow>
     (\<forall>k r. rooms s k = Some r \<longrightarrow> room_id r = k \<and> room_wf_multi r) \<and>
     (\<forall>u k. count_list (uid2rids s u) k \<le> mcount s u k)"

definition leave_effect :: "uid \<Rightarrow> room \<Rightarrow> room option" where
  "leave_effect u r =
     (if memberIds (drop_member u r) = [] then None else Some (fst (leave_cmds u (drop_member u r))))"

definition sys_inv_multi :: "store \<Rightarrow> nat \<Rightarrow> bool" where
  "sys_inv_multi s t \<longleftrightarrow> store_inv_multi s \<and> keys_before s t"

subsection \<open>Updates of one room\<close>

lemma store_inv_multiD:
  assumes "store_inv_multi s"
  shows "rooms s k = Some r \<Longrightarrow> room_id r = k"
    and "rooms s k = Some r \<Longrightarrow> room_wf_multi r"
    and "count_list (uid2rids s u) k \<le> mcount s u k"
  using assms by (auto simp: store_inv_multi_def)

lemma index_member_multi:
  assumes "store_inv_multi s" and "k \<in> set (uid2rids s u)"
  obtains r where "rooms s k = Some r" and "u \<in> set (memberIds r)"
proof -
  have "0 < count_list (uid2rids s u) k" using assms(2) by (metis count_list_0_iff gr0I)
  with store_inv_multiD(3) [OF assms(1), of u k] have "0 < mcount s u k" by simp
  then obtain r where r: "rooms s k = Some r" and "0 < count_list (memberIds r) u"
    by (auto simp: mcount_def split: option.splits)
  then have "u \<in> set (memberIds r)" by (metis count_list_0_iff less_irrefl)
  with r that show ?thesis by blast
qed

lemma inv_multi_upd:
  assumes inv: "store_inv_multi s"
    and rs: "rooms s' = (rooms s)(k := x)"
    and wf: "\<And>r. x = Some r \<Longrightarrow> room_id r = k \<and> room_wf_multi r"
    and other: "\<And>v k'. k' \<noteq> k \<Longrightarrow> count_list (uid2rids s' v) k' \<le> count_list (uid2rids s v) k'"
    and atk: "\<And>v. count_list (uid2rids s' v) k \<le> mcount s' v k"
  shows "store_inv_multi s'"
  unfolding store_inv_multi_def
proof (intro conjI allI impI)
  fix k1 r1 assume "rooms s' k1 = Some r1"
  with inv wf rs show "room_id r1 = k1" and "room_wf_multi r1"
    by (auto simp: store_inv_multi_def split: if_splits)
next
  fix v k1
  show "count_list (uid2rids s' v) k1 \<le> mcount s' v k1"
  proof (cases "k1 = k")
    case True
    then show ?thesis using atk by simp
  next
    case False
    then have "mcount s' v k1 = mcount s v k1" by (simp add: mcount_def rs)
    with other [OF False, of v] store_inv_multiD(3) [OF inv, of v k1] show ?thesis by simp
  qed
qed

subsection \<open>The pipeline of one leave\<close>

lemma exec_leave_cmds:
  "rooms (exec (snd (leave_cmds u (drop_member u r))) t) = (rooms t)(room_id r := leave_effect u r) \<and>
   uid2rids (exec (snd (leave_cmds u (drop_member u r))) t) =
     (uid2rids t)(u := remove1 (room_id r) (uid2rids t u))"
  by (simp add: leave_cmds_def leave_effect_def Let_def)

lemma leave_effect_wf:
  assumes wf: "room_wf_multi r" and u: "u \<in> set (memberIds r)"
  shows "leave_effect u r = None \<Longrightarrow> memberIds r = [u]"
    and "leave_effect u r = Some r' \<Longrightarrow>
           room_id r' = room_id r \<and> room_wf_multi r' \<and> memberIds r' = remove1 u (memberIds r)"
proof -
  have dm: "memberIds (drop_member u r) = remove1 u (memberIds r)" using u by (rule drop_member_present)
  show "leave_effect u r = None \<Longrightarrow> memberIds r = [u]"
    using dm remove1_eq_Nil_iff [OF u] by (simp add: leave_effect_def split: if_splits)
  assume e: "leave_effect u r = Some r'"
  then have ne: "remove1 u (memberIds r) \<noteq> []" using dm by (simp add: leave_effect_def split: if_splits)
  have own: "(if u = ownerId r then hd (remove1 u (memberIds r)) else ownerId r) \<in> set (remove1 u (memberIds r))"
    using wf ne by (auto simp: room_wf_multi_def mem_remove1_other)
  have disj: "set (remove1 u (memberIds r)) \<inter> set (waitingIds r) = {}"
    using wf set_remove1_subset [of u "memberIds r"] by (auto simp: room_wf_multi_def)
  from e own dm wf disj show "room_id r' = room_id r \<and> room_wf_multi r' \<and> memberIds r' = remove1 u (memberIds r)"
    by (auto simp: leave_effect_def leave_cmds_def Let_def room_wf_multi_def split: if_splits)
qed

lemma inv_multi_same_members:
  assumes inv: "store_inv_multi s" and r: "rooms s k = Some r"
    and id: "room_id r' = k" and wf: "room_wf_multi r'" and mem: "memberIds r' = memberIds r"
    and rs: "rooms s' = (rooms s)(k \<mapsto> r')" and ix: "uid2rids s' = uid2rids s"
  shows "store_inv_multi s'"
proof (rule inv_multi_upd [OF inv rs])
  fix v
  have "mcount s' v k = mcount s v k" using r mem by (simp add: mcount_def rs)
  then show "count_list (uid2rids s' v) k \<le> mcount s' v k" using store_inv_multiD(3) [OF inv] ix by simp
qed (use id wf ix in simp_all)

lemma inv_multi_add_member:
  assumes inv: "store_inv_multi s" and r: "rooms s k = Some r"
    and id: "room_id r' = k" and wf: "room_wf_multi r'" and mem: "memberIds r' = memberIds r @ [u]"
    and rs: "rooms s' = (rooms s)(k \<mapsto> r')" and ix: "uid2rids s' = (uid2rids s)(u := k # uid2rids s u)"
  shows "store_inv_multi s'"
proof (rule inv_multi_upd [OF inv rs])
  fix v
  have "count_list (uid2rids s v) k \<le> count_list (memberIds r) v"
    using store_inv_multiD(3) [OF inv, of v k] r by (simp add: mcount_def)
  then show "count_list (uid2rids s' v) k \<le> mcount s' v k" using mem ix by (simp add: mcount_def rs)
qed (use id wf ix in simp_all)

lemma inv_multi_remove_member:
  assumes inv: "store_inv_multi s" and r: "rooms s k = Some r" and u: "u \<in> set (memberIds r)"
    and x: "x = None \<and> memberIds r = [u] \<or>
            (\<exists>r'. x = Some r' \<and> room_id r' = k \<and> room_wf_multi r' \<and> memberIds r' = remove1 u (memberIds r))"
    and rs: "rooms s' = (rooms s)(k := x)"
    and ix: "uid2rids s' = (uid2rids s)(u := remove1 k (uid2rids s u))"
  shows "store_inv_multi s'"
proof (rule inv_multi_upd [OF inv rs])
  fix v
  have old: "count_list (uid2rids s v) k \<le> count_list (memberIds r) v"
    using store_inv_multiD(3) [OF inv, of v k] r by (simp add: mcount_def)
  show "count_list (uid2rids s' v) k \<le> mcount s' v k"
    using x
  proof
    assume "x = None \<and> memberIds r = [u]"
    with old ix show ?thesis by (cases "v = u") (simp_all add: mcount_def rs count_list_remove1)
  next
    assume "\<exists>r'. x = Some r' \<and> room_id r' = k \<and> room_wf_multi r' \<and> memberIds r' = remove1 u (memberIds r)"
    with old ix show ?thesis by (auto simp: mcount_def rs count_list_remove1)
  qed
next
  fix r' assume "x = Some r'"
  with x show "room_id r' = k \<and> room_wf_multi r'" by auto
qed (use ix in \<open>simp add: count_list_remove1\<close>)

subsection \<open>Room-level facts\<close>

lemma room_wf_multi_join_room: "room_wf_multi r \<Longrightarrow> room_wf_multi (join_room u r)"
proof -
  assume wf: "room_wf_multi r"
  let ?w = "js_splice1 (waitingIds r) (js_indexOf (waitingIds r) u)"
  have dw: "distinct (waitingIds r)" using wf by (simp add: room_wf_multi_def)
  have sub: "set ?w \<subseteq> set (waitingIds r)" by (rule js_splice1_indexOf_subset)
  have gone: "u \<notin> set ?w" using dw by (rule js_splice1_indexOf_gone)
  have "distinct ?w" using dw by (rule js_splice1_indexOf_distinct)
  with wf sub gone show ?thesis by (auto simp: room_wf_multi_def join_room_def Let_def)
qed

lemma room_wf_multi_accept:
  assumes wf: "room_wf_multi r" and g: "g \<in> set (waitingIds r)"
  shows "room_wf_multi (r\<lparr>waitingIds := remove1 g (waitingIds r), memberIds := memberIds r @ [g]\<rparr>)"
    and "room_wf_multi (r\<lparr>waitingIds := remove1 g (waitingIds r), refusedIds := refusedIds r @ [g]\<rparr>)"
  using wf g by (auto simp: room_wf_multi_def dest: set_remove1_subset [THEN subsetD])

subsection \<open>leaveMany when the index lists a room more than once\<close>

lemma exec_leave_each:
  "rooms (exec (snd (leave_each u rs)) t) = fold (\<lambda>r m. m(room_id r := leave_effect u r)) rs (rooms t) \<and>
   uid2rids (exec (snd (leave_each u rs)) t) =
     (uid2rids t)(u := fold (\<lambda>r. remove1 (room_id r)) rs (uid2rids t u))"
proof (induction rs arbitrary: t)
  case Nil
  then show ?case by simp
next
  case (Cons r rs)
  let ?t1 = "exec (snd (leave_cmds u (drop_member u r))) t"
  have e: "exec (snd (leave_each u (r # rs))) t = exec (snd (leave_each u rs)) ?t1"
    by (simp only: leave_each_Cons_cmds exec_append)
  have r1: "rooms ?t1 = (rooms t)(room_id r := leave_effect u r)"
    and i1: "uid2rids ?t1 = (uid2rids t)(u := remove1 (room_id r) (uid2rids t u))"
    using exec_leave_cmds [of u r t] by simp_all
  show ?case
    unfolding e using Cons.IH [of ?t1] r1 i1
    by (simp only: fold_Cons comp_apply fun_upd_upd fun_upd_same)
qed

lemma getMany_all:
  "(\<And>k. k \<in> set ks \<Longrightarrow> rooms s k \<noteq> None) \<Longrightarrow> getMany s ks = map (\<lambda>k. the (rooms s k)) ks"
  by (induction ks) (auto split: option.splits)

lemma fold_rooms_upd:
  assumes "\<And>k. k \<in> set ks \<Longrightarrow> room_id (R k) = k"
  shows "fold (\<lambda>r m. m(room_id r := E r)) (map R ks) m k' = (if k' \<in> set ks then E (R k') else m k')"
  using assms by (induction ks arbitrary: m) auto

lemma fold_index_remove:
  assumes "\<And>k. k \<in> set ks \<Longrightarrow> room_id (R k) = k"
  shows "fold (\<lambda>r. remove1 (room_id r)) (map R ks) xs = fold remove1 ks xs"
  using assms by (induction ks arbitrary: xs) auto

text \<open>The store \<open>leaveMany u []\<close> leaves: every room the index names gets the
  effect of one leave computed from the snapshot (repetitions of a room in the index
  write the same room again), and the user's index is emptied, one \<open>LREM\<close> per
  entry.\<close>

lemma leaveMany_final_multi:
  assumes inv: "store_inv_multi s" and lm: "leaveMany u [] s = (rs, s')" and ne: "uid2rids s u \<noteq> []"
  shows "(\<forall>k'. rooms s' k' = (if k' \<in> set (uid2rids s u) then leave_effect u (the (rooms s k'))
                               else rooms s k')) \<and>
         uid2rids s' = (uid2rids s)(u := [])"
proof -
  let ?ks = "uid2rids s u"
  let ?R = "\<lambda>k. the (rooms s k)"
  have s': "s' = exec (snd (leave_each u (getMany s ?ks))) s"
    using lm ne by (simp add: leaveMany_def leaveMany_plan_def split_def Let_def)
  have ids: "room_id (?R k) = k" if "k \<in> set ?ks" for k
    using index_member_multi [OF inv that] store_inv_multiD(1) [OF inv] by fastforce
  have gm: "getMany s ?ks = map ?R ?ks"
    by (rule getMany_all) (use index_member_multi [OF inv] in blast)
  have rs0: "rooms s' = fold (\<lambda>r m. m(room_id r := leave_effect u r)) (map ?R ?ks) (rooms s)"
    using exec_leave_each [of u "map ?R ?ks" s] s' gm by simp
  have "rooms s' k' = (if k' \<in> set ?ks then leave_effect u (?R k') else rooms s k')" for k'
    unfolding rs0 by (rule fold_rooms_upd) (erule ids)
  moreover have fi: "fold (\<lambda>r. remove1 (room_id r)) (map ?R ?ks) ?ks = fold remove1 ?ks ?ks"
    by (rule fold_index_remove) (erule ids)
  then have "uid2rids s' = (uid2rids s)(u := [])"
    using exec_leave_each [of u "map ?R ?ks" s] s' gm by (simp add: fold_remove1_self)
  ultimately show ?thesis by blast
qed

lemma leave_effect_count:
  assumes wf: "room_wf_multi r" and u: "u \<in> set (memberIds r)" and vu: "v \<noteq> u"
    and old: "n \<le> count_list (memberIds r) v"
  shows "n \<le> (case leave_effect u r of None \<Rightarrow> 0 | Some r' \<Rightarrow> count_list (memberIds r') v)"
proof (cases "leave_effect u r")
  case None
  with leave_effect_wf(1) [OF wf u] old vu show ?thesis by simp
next
  case (Some r')
  with leave_effect_wf(2) [OF wf u] old vu show ?thesis by (simp add: count_list_remove1)
qed

lemma leaveMany_multi:
  assumes inv: "store_inv_multi s" and lm: "leaveMany u [] s = (rs, s')"
  shows "store_inv_multi s' \<and> rooms_sub s s'"
proof (cases "uid2rids s u = []")
  case True
  with lm inv show ?thesis by (simp add: leaveMany_def leaveMany_plan_def rooms_sub_def)
next
  case False
  let ?ks = "uid2rids s u"
  have rs': "rooms s' k' = (if k' \<in> set ?ks then leave_effect u (the (rooms s k')) else rooms s k')"
    and ix': "uid2rids s' = (uid2rids s)(u := [])" for k'
    using leaveMany_final_multi [OF inv lm False] by simp_all
  have present: "\<exists>r. rooms s k = Some r \<and> u \<in> set (memberIds r)" if "k \<in> set ?ks" for k
    using index_member_multi [OF inv that] by blast
  have "store_inv_multi s'"
    unfolding store_inv_multi_def
  proof (intro conjI allI impI)
    fix k r' assume k: "rooms s' k = Some r'"
    have "room_id r' = k \<and> room_wf_multi r'"
    proof (cases "k \<in> set ?ks")
      case True
      then obtain rk where r: "rooms s k = Some rk" and u: "u \<in> set (memberIds rk)" using present by blast
      with True k rs' [of k] leave_effect_wf(2) [OF store_inv_multiD(2) [OF inv r] u] store_inv_multiD(1) [OF inv r]
      show ?thesis by simp
    next
      case False
      with k rs' store_inv_multiD(1,2) [OF inv] show ?thesis by simp
    qed
    then show "room_id r' = k" and "room_wf_multi r'" by simp_all
  next
    fix v k
    have old: "count_list (uid2rids s v) k \<le> mcount s v k" using store_inv_multiD(3) [OF inv] .
    show "count_list (uid2rids s' v) k \<le> mcount s' v k"
    proof (cases "v = u \<or> k \<notin> set ?ks")
      case True
      with old show ?thesis by (auto simp: ix' mcount_def rs')
    next
      case False
      then obtain rk where r: "rooms s k = Some rk" and u: "u \<in> set (memberIds rk)"
        and k: "k \<in> set ?ks" and vu: "v \<noteq> u" using present by blast
      from leave_effect_count [OF store_inv_multiD(2) [OF inv r] u vu] old r k vu show ?thesis
        by (simp add: ix' mcount_def rs')
    qed
  qed
  moreover have "rooms_sub s s'" using rs' present by (auto simp: rooms_sub_def)
  ultimately show ?thesis by simp
qed

subsection \<open>Each method keeps the counting invariant\<close>

lemma rooms_sub_upd_opt: "rooms s k \<noteq> None \<Longrightarrow> rooms s' = (rooms s)(k := x) \<Longrightarrow> rooms_sub s s'"
  by (simp add: rooms_sub_def)

lemma book_multi:
  assumes inv: "store_inv_multi s" and fresh: "rooms s (js_String_nat now) = None"
    and ok: "book allow u p now s = Inr (r, s')"
  shows "store_inv_multi s' \<and> rooms s' = (rooms s)(js_String_nat now \<mapsto> r)"
proof -
  let ?k = "js_String_nat now"
  from ok have r: "r = \<lparr>room_id = ?k, isPublic = p, ownerId = u, memberIds = [u],
      waitingIds = [], refusedIds = []\<rparr>" and s': "s' = exec [SET ?k r, LPUSH u ?k] s"
    by (simp_all add: book_Inr)
  have rs: "rooms s' = (rooms s)(?k := Some r)" using s' by simp
  have "store_inv_multi s'"
  proof (rule inv_multi_upd [OF inv rs])
    fix v
    have "count_list (uid2rids s v) ?k = 0"
      using store_inv_multiD(3) [OF inv, of v ?k] fresh by (simp add: mcount_def)
    then show "count_list (uid2rids s' v) ?k \<le> mcount s' v ?k"
      using s' r by (simp add: mcount_def)
  qed (use r s' in \<open>simp_all add: room_wf_multi_def\<close>)
  with rs show ?thesis by simp
qed

lemma join_multi:
  assumes inv: "store_inv_multi s" and ok: "join True u k s = Inr (r', s')"
  shows "store_inv_multi s' \<and> rooms_sub s s'"
proof -
  from ok obtain r where r: "rooms s k = Some r" and r': "r' = join_room u r"
    and s': "s' = exec [SET (room_id r') r', LPUSH u (room_id r')] s"
    by (auto simp: join_Inr)
  have id: "room_id r' = k" using store_inv_multiD(1) [OF inv r] r' by (simp add: join_room_def Let_def)
  have wf: "room_wf_multi r'" using room_wf_multi_join_room [OF store_inv_multiD(2) [OF inv r]] r' by simp
  have mem: "memberIds r' = memberIds r @ [u]" using r' by (simp add: join_room_def Let_def)
  have rs: "rooms s' = (rooms s)(k \<mapsto> r')" using s' id by simp
  have ix: "uid2rids s' = (uid2rids s)(u := k # uid2rids s u)" using s' id by simp
  from inv_multi_add_member [OF inv r id wf mem rs ix] rooms_sub_upd_opt [of s k s'] r rs show ?thesis
    by simp
qed

lemma leave_multi:
  assumes inv: "store_inv_multi s" and ok: "leave u k s = Inr (r', s')"
  shows "store_inv_multi s' \<and> rooms_sub s s'"
proof -
  from ok obtain r cs where r: "rooms s k = Some r" and u: "u \<in> set (memberIds r)"
    and lc: "leave_cmds u (drop_member u r) = (r', cs)" and s': "s' = exec cs s"
    by (auto simp: leave_Inr)
  have id: "room_id r = k" using store_inv_multiD(1) [OF inv r] .
  have wf: "room_wf_multi r" using store_inv_multiD(2) [OF inv r] .
  have e: "rooms s' = (rooms s)(k := leave_effect u r) \<and> uid2rids s' = (uid2rids s)(u := remove1 k (uid2rids s u))"
    using exec_leave_cmds [of u r s] lc s' id by simp
  have x: "leave_effect u r = None \<and> memberIds r = [u] \<or>
      (\<exists>r''. leave_effect u r = Some r'' \<and> room_id r'' = k \<and> room_wf_multi r'' \<and>
             memberIds r'' = remove1 u (memberIds r))"
    using leave_effect_wf [OF wf u] id by (cases "leave_effect u r") auto
  from inv_multi_remove_member [OF inv r u x] e rooms_sub_upd_opt [of s k s'] r show ?thesis by simp
qed

lemma kick_multi:
  assumes inv: "store_inv_multi s" and ok: "kick kr m k s = Inr (res, s')"
  shows "store_inv_multi s' \<and> rooms_sub s s'"
proof (cases "kr = m")
  case True
  with ok obtain r' where "leave kr k s = Inr (r', s')"
    by (auto simp: kick_self split: sum.splits)
  with inv show ?thesis by (rule leave_multi)
next
  case False
  with ok obtain r where r: "rooms s k = Some r" and own: "ownerId r = kr"
    and m: "m \<in> set (memberIds r)"
    and s': "s' = exec [SET (room_id r) (drop_member m r), LREM m 1 (room_id r)] s"
    by (auto simp: kick_other_Inr)
  have id: "room_id r = k" using store_inv_multiD(1) [OF inv r] .
  have wf: "room_wf_multi r" using store_inv_multiD(2) [OF inv r] .
  have dm: "memberIds (drop_member m r) = remove1 m (memberIds r)" using m by (rule drop_member_present)
  have "room_wf_multi (drop_member m r)"
    using wf False own dm set_remove1_subset [of m "memberIds r"]
    by (auto simp: room_wf_multi_def mem_remove1_other)
  with dm id have x: "Some (drop_member m r) = None \<and> memberIds r = [m] \<or>
      (\<exists>r''. Some (drop_member m r) = Some r'' \<and> room_id r'' = k \<and> room_wf_multi r'' \<and>
             memberIds r'' = remove1 m (memberIds r))" by simp
  from inv_multi_remove_member [OF inv r m x] s' id rooms_sub_upd_opt [of s k s'] r show ?thesis by simp
qed

lemma transferOwnership_multi:
  assumes inv: "store_inv_multi s" and ok: "transferOwnership ow c k s = Inr (r', s')"
  shows "store_inv_multi s' \<and> rooms_sub s s'"
proof -
  from ok obtain r where r: "rooms s k = Some r" and c: "c \<in> set (memberIds r)"
    and r': "r' = r\<lparr>ownerId := c\<rparr>" and s': "s' = exec [SET (room_id r) r'] s"
    by (auto simp: transferOwnership_Inr)
  have id: "room_id r = k" using store_inv_multiD(1) [OF inv r] .
  have "room_wf_multi r'" using store_inv_multiD(2) [OF inv r] c r' by (simp add: room_wf_multi_def)
  from inv_multi_same_members [OF inv r _ this] r' s' id rooms_sub_upd_opt [of s k s'] r show ?thesis
    by simp
qed

lemma invite_multi:
  assumes inv: "store_inv_multi s" and ok: "invite i g k s = Inr (res, s')"
  shows "store_inv_multi s' \<and> rooms_sub s s'"
proof -
  from ok obtain r where r: "rooms s k = Some r" and g: "g \<notin> set (memberIds r)" "g \<notin> set (waitingIds r)"
    and s': "s' = exec [SET (room_id r) (invite_room g r)] s"
    by (auto simp: invite_Inr)
  have id: "room_id r = k" using store_inv_multiD(1) [OF inv r] .
  have "room_wf_multi (invite_room g r)"
    using store_inv_multiD(2) [OF inv r] g by (auto simp: room_wf_multi_def invite_room_def Let_def)
  from inv_multi_same_members [OF inv r _ this] s' id rooms_sub_upd_opt [of s k s'] r show ?thesis
    by (simp add: invite_room_def Let_def)
qed

lemma respondInvitation_multi:
  assumes inv: "store_inv_multi s" and ok: "respondInvitation True g acc k s = Inr (res, s')"
  shows "store_inv_multi s' \<and> rooms_sub s s'"
proof -
  obtain r where r: "rooms s k = Some r" and g: "g \<in> set (waitingIds r)"
    and acc_s': "acc \<Longrightarrow> s' = exec [LPUSH g (room_id r),
            SET (room_id r) (r\<lparr>waitingIds := remove1 g (waitingIds r), memberIds := memberIds r @ [g]\<rparr>)]
          (if \<not> True \<and> isMemberOfAny s g then snd (leaveMany g [] s) else s)"
    and dec_s': "\<not> acc \<Longrightarrow> s' = exec [SET (room_id r)
            (r\<lparr>waitingIds := remove1 g (waitingIds r), refusedIds := refusedIds r @ [g]\<rparr>)] s"
    using respondInvitation_Inr [OF ok] by blast
  have id: "room_id r = k" using store_inv_multiD(1) [OF inv r] .
  have wf: "room_wf_multi r" using store_inv_multiD(2) [OF inv r] .
  have "store_inv_multi s'"
  proof (cases acc)
    case True
    from inv_multi_add_member [OF inv r _ room_wf_multi_accept(1) [OF wf g]] acc_s' [OF True] id
    show ?thesis by simp
  next
    case False
    from inv_multi_same_members [OF inv r _ room_wf_multi_accept(2) [OF wf g]] dec_s' [OF False] id
    show ?thesis by simp
  qed
  moreover have "rooms_sub s s'"
    using acc_s' dec_s' id r by (cases acc) (auto simp: rooms_sub_def)
  ultimately show ?thesis by simp
qed

subsection \<open>The reachable states with the policy off\<close>

lemma step_multi:
  assumes si: "sys_inv_multi s t" and ok: "step True t a s = Inr s'"
  shows "sys_inv_multi s' (Suc t)"
proof -
  have inv: "store_inv_multi s" and kb: "keys_before s t" using si by (auto simp: sys_inv_multi_def)
  have other: "sys_inv_multi s' (Suc t)" if "store_inv_multi s' \<and> rooms_sub s s'"
    using that keys_before_sub [OF kb] by (simp add: sys_inv_multi_def)
  from ok show ?thesis
  proof (cases rule: step_InrE)
    case (Book u p r)
    have fresh: "rooms s (js_String_nat t) = None" using kb by (rule keys_before_fresh)
    from book_multi [OF inv fresh Book(2)] keys_before_book [OF kb] show ?thesis
      by (simp add: sys_inv_multi_def)
  next
    case (Join u k r')
    from join_multi [OF inv Join(2)] show ?thesis by (rule other)
  next
    case (Leave u k r')
    from leave_multi [OF inv Leave(2)] show ?thesis by (rule other)
  next
    case (LeaveAll u rs)
    from leaveMany_multi [OF inv LeaveAll(2)] show ?thesis by (rule other)
  next
    case (Kick kr m k res)
    from kick_multi [OF inv Kick(2)] show ?thesis by (rule other)
  next
    case (TransferOwnership ow c k r')
    from transferOwnership_multi [OF inv TransferOwnership(2)] show ?thesis by (rule other)
  next
    case (Invite i g k res)
    from invite_multi [OF inv Invite(2)] show ?thesis by (rule other)
  next
    case (RespondInvitation g acc k res)
    from respondInvitation_multi [OF inv RespondInvitation(2)] show ?thesis by (rule other)
  qed
qed

lemma reachable_sys_inv_multi: "reachable True s t \<Longrightarrow> sys_inv_multi s t"
proof (induction rule: reachable.induct)
  case (init sids t)
  show ?case by (simp add: sys_inv_multi_def store_inv_multi_def mcount_def keys_before_def empty_store_def)
next
  case (call s t a s')
  from call.IH call.hyps(2) show ?case by (rule step_multi)
next
  case (tick s t t')
  then show ?case by (auto simp: sys_inv_multi_def intro: keys_before_mono)
next
  case (session s t sids)
  then show ?case by (simp add: sys_inv_multi_def store_inv_multi_def mcount_def keys_before_def)
qed

text \<open>
  C22. With \<open>allowJoinMultipleRooms\<close> on, although a member may occur twice in a
  room (C4), in every reachable state every stored room sits under its own id, has
  its owner among its members, no duplicate invitee and no member also waiting, and
  every entry of a user's reverse index names a stored room in which the user occurs
  at least as often as the index names it: properties 1 and 2 of spec section 8
  hold with either setting of the policy, and the index never dangles.
\<close>

theorem reachable_multi_invariant:
  assumes "reachable True s t"
  shows "(\<forall>k r. rooms s k = Some r \<longrightarrow>
            room_id r = k \<and> ownerId r \<in> set (memberIds r) \<and> distinct (waitingIds r) \<and>
            set (memberIds r) \<inter> set (waitingIds r) = {}) \<and>
         (\<forall>u k. k \<in> set (uid2rids s u) \<longrightarrow>
            (\<exists>r. rooms s k = Some r \<and> count_list (uid2rids s u) k \<le> count_list (memberIds r) u))"
proof -
  have inv: "store_inv_multi s" using reachable_sys_inv_multi [OF assms] by (simp add: sys_inv_multi_def)
  have wf: "\<forall>k r. rooms s k = Some r \<longrightarrow>
            room_id r = k \<and> ownerId r \<in> set (memberIds r) \<and> distinct (waitingIds r) \<and>
            set (memberIds r) \<inter> set (waitingIds r) = {}"
    using store_inv_multiD(1,2) [OF inv] by (simp add: room_wf_multi_def)
  have "\<exists>r. rooms s k = Some r \<and> count_list (uid2rids s u) k \<le> count_list (memberIds r) u"
    if k: "k \<in> set (uid2rids s u)" for u k
  proof -
    obtain r where r: "rooms s k = Some r" using index_member_multi [OF inv k] by blast
    with store_inv_multiD(3) [OF inv, of u k] show ?thesis by (simp add: mcount_def)
  qed
  with wf show ?thesis by blast
qed

theorem reachable_multi_invariant_witness:
  "let r = room0\<lparr>memberIds := [1, 1]\<rparr>; s = exec [SET ''0'' r, LPUSH 1 ''0''] store0
   in reachable True s 2 \<and> rooms s ''0'' = Some r \<and> uid2rids s 1 = [''0'', ''0''] \<and>
      ownerId r \<in> set (memberIds r) \<and> count_list (uid2rids s 1) ''0'' \<le> count_list (memberIds r) 1"
proof -
  define r where "r = room0\<lparr>memberIds := [1, 1]\<rparr>"
  define s where "s = exec [SET ''0'' r, LPUSH 1 ''0''] store0"
  have e1: "step True 0 (Book 1 True) (empty_store sids0) = Inr store0"
    by (simp add: store_of_def book_def book_plan_def Let_def js_String_nat.simps digit_char_def
        room0_def store0_def)
  have r1: "reachable True store0 (Suc 0)" by (rule reachable.call [OF reachable.init e1])
  have e2: "step True (Suc 0) (Join 1 ''0'') store0 = Inr s"
    by (simp add: store_of_def join_def join_plan_def get_def Let_def join_room_def js_splice1_def
        store0_def room0_def empty_store_def r_def s_def)
  have "reachable True s (Suc (Suc 0))" by (rule reachable.call [OF r1 e2])
  then have r2: "reachable True s 2" by (simp add: numeral_2_eq_2)
  have rs: "rooms s ''0'' = Some r" and ix: "uid2rids s 1 = [''0'', ''0'']"
    by (simp_all add: s_def store0_def empty_store_def)
  note C = reachable_multi_invariant [OF r2]
  have own: "ownerId r \<in> set (memberIds r)" using conjunct1 [OF C] rs by blast
  have "''0'' \<in> set (uid2rids s 1)" using ix by simp
  with conjunct2 [OF C] obtain r' where "rooms s ''0'' = Some r'"
    and "count_list (uid2rids s 1) ''0'' \<le> count_list (memberIds r') 1" by blast
  with rs have "count_list (uid2rids s 1) ''0'' \<le> count_list (memberIds r) 1" by simp
  with own rs ix r2 show ?thesis unfolding r_def [symmetric] s_def [symmetric] Let_def by simp
qed

end
