(* ===== verification/Json.thy ===== *)
theory Json
  imports Room
begin

text \<open>
  The JSON encoding of rooms. RoomService writes a room with
  \<open>JSON.stringify(room)\<close> and reads it back with \<open>JSON.parse\<close>; the store of
  the model holds the room record itself. This theory models both runtime functions
  on the JSON values a room is made of and proves that parsing what was printed
  gives back the room, which is what lets the store hold records. The parser is a
  recursive descent with fuel; the fuel lemmas show that the fuel \<open>json_parse\<close>
  gives it is never the reason it fails.
\<close>

subsection \<open>Definitions\<close>

datatype json = JNull | JBool bool | JNum int | JStr string | JArr "json list"
  | JObj "(string \<times> json) list"

definition js_String_int :: "int \<Rightarrow> string" where
  "js_String_int i = (if i < 0 then CHR ''-'' # js_String_nat (nat (- i)) else js_String_nat (nat i))"

definition hex_digit :: "nat \<Rightarrow> char" where
  "hex_digit d = ''0123456789abcdef'' ! d"

definition json_esc :: "char \<Rightarrow> string" where
  "json_esc c =
     (if c = CHR 0x22 then [CHR 0x5C, CHR 0x22]
      else if c = CHR 0x5C then [CHR 0x5C, CHR 0x5C]
      else if c = CHR 0x08 then [CHR 0x5C, CHR ''b'']
      else if c = CHR 0x09 then [CHR 0x5C, CHR ''t'']
      else if c = CHR 0x0A then [CHR 0x5C, CHR ''n'']
      else if c = CHR 0x0C then [CHR 0x5C, CHR ''f'']
      else if c = CHR 0x0D then [CHR 0x5C, CHR ''r'']
      else if of_char c < (32::nat) then
        [CHR 0x5C, CHR ''u'', CHR ''0'', CHR ''0'', hex_digit (of_char c div 16), hex_digit (of_char c mod 16)]
      else [c])"

definition json_quote :: "string \<Rightarrow> string" where
  "json_quote s = CHR 0x22 # concat (map json_esc s) @ [CHR 0x22]"

fun json_join :: "string list \<Rightarrow> string" where
  "json_join [] = []"
| "json_join [x] = x"
| "json_join (x # xs) = x @ CHR '','' # json_join xs"

fun json_print :: "json \<Rightarrow> string" where
  "json_print JNull = ''null''"
| "json_print (JBool b) = (if b then ''true'' else ''false'')"
| "json_print (JNum i) = js_String_int i"
| "json_print (JStr s) = json_quote s"
| "json_print (JArr vs) = ''['' @ json_join (map json_print vs) @ '']''"
| "json_print (JObj kvs) = ''{'' @ json_join (map (\<lambda>(k, v). json_quote k @ '':'' @ json_print v) kvs) @ ''}''"

definition is_digit :: "char \<Rightarrow> bool" where
  "is_digit c \<longleftrightarrow> (let n = of_char c :: nat in 48 \<le> n \<and> n \<le> 57)"

definition is_ws :: "char \<Rightarrow> bool" where
  "is_ws c \<longleftrightarrow> c = CHR '' '' \<or> c = CHR 0x09 \<or> c = CHR 0x0A \<or> c = CHR 0x0D"

fun skip_ws :: "string \<Rightarrow> string" where
  "skip_ws [] = []"
| "skip_ws (c # cs) = (if is_ws c then skip_ws cs else c # cs)"

definition hex_val :: "char \<Rightarrow> nat option" where
  "hex_val c =
     (let n = of_char c :: nat
      in if 48 \<le> n \<and> n \<le> 57 then Some (n - 48)
         else if 97 \<le> n \<and> n \<le> 102 then Some (n - 87)
         else if 65 \<le> n \<and> n \<le> 70 then Some (n - 55)
         else None)"

definition parse_int :: "string \<Rightarrow> (int \<times> string) option" where
  "parse_int cs =
     (let (neg, cs1) = (case cs of c # r \<Rightarrow> if c = CHR ''-'' then (True, r) else (False, cs) | [] \<Rightarrow> (False, []));
          ds = takeWhile is_digit cs1; rest = dropWhile is_digit cs1;
          n = int (decimal_value ds)
      in if ds = [] \<or> (hd ds = CHR ''0'' \<and> 1 < length ds) then None
         else if rest \<noteq> [] \<and> hd rest \<in> {CHR ''.'', CHR ''e'', CHR ''E''} then None
         else Some (if neg then - n else n, rest))"

fun parse_str :: "string \<Rightarrow> (string \<times> string) option" where
  "parse_str [] = None"
| "parse_str (c # cs) =
     (if c = CHR 0x22 then Some ([], cs)
      else if c = CHR 0x5C then
        (case cs of
           [] \<Rightarrow> None
         | e # cs' \<Rightarrow>
             if e = CHR 0x22 \<or> e = CHR 0x5C \<or> e = CHR ''/'' then map_option (apfst ((#) e)) (parse_str cs')
             else if e = CHR ''b'' then map_option (apfst ((#) (CHR 0x08))) (parse_str cs')
             else if e = CHR ''t'' then map_option (apfst ((#) (CHR 0x09))) (parse_str cs')
             else if e = CHR ''n'' then map_option (apfst ((#) (CHR 0x0A))) (parse_str cs')
             else if e = CHR ''f'' then map_option (apfst ((#) (CHR 0x0C))) (parse_str cs')
             else if e = CHR ''r'' then map_option (apfst ((#) (CHR 0x0D))) (parse_str cs')
             else if e = CHR ''u'' then
               (case cs' of
                  h1 # h2 # h3 # h4 # cs'' \<Rightarrow>
                    (case (hex_val h1, hex_val h2, hex_val h3, hex_val h4) of
                       (Some a, Some b, Some c, Some d) \<Rightarrow>
                         let v = ((a * 16 + b) * 16 + c) * 16 + d
                         in if v < 256 then map_option (apfst ((#) (char_of v))) (parse_str cs'') else None
                     | _ \<Rightarrow> None)
                | _ \<Rightarrow> None)
             else None)
      else if of_char c < (32::nat) then None
      else map_option (apfst ((#) c)) (parse_str cs))"

fun parse_value :: "nat \<Rightarrow> string \<Rightarrow> (json \<times> string) option"
and parse_elems :: "nat \<Rightarrow> string \<Rightarrow> (json list \<times> string) option"
and parse_members :: "nat \<Rightarrow> string \<Rightarrow> ((string \<times> json) list \<times> string) option" where
  "parse_value 0 cs = None"
| "parse_value (Suc n) cs =
     (case skip_ws cs of
        [] \<Rightarrow> None
      | c # r \<Rightarrow>
          if c = CHR ''n'' then (if take 3 r = ''ull'' then Some (JNull, drop 3 r) else None)
          else if c = CHR ''t'' then (if take 3 r = ''rue'' then Some (JBool True, drop 3 r) else None)
          else if c = CHR ''f'' then (if take 4 r = ''alse'' then Some (JBool False, drop 4 r) else None)
          else if c = CHR 0x22 then map_option (apfst JStr) (parse_str r)
          else if c = CHR ''['' then
            (case skip_ws r of
               d # r' \<Rightarrow> if d = CHR '']'' then Some (JArr [], r') else map_option (apfst JArr) (parse_elems n r)
             | [] \<Rightarrow> None)
          else if c = CHR ''{'' then
            (case skip_ws r of
               d # r' \<Rightarrow> if d = CHR ''}'' then Some (JObj [], r') else map_option (apfst JObj) (parse_members n r)
             | [] \<Rightarrow> None)
          else if c = CHR ''-'' \<or> is_digit c then map_option (apfst JNum) (parse_int (c # r))
          else None)"
| "parse_elems 0 cs = None"
| "parse_elems (Suc n) cs =
     (case parse_value n cs of
        None \<Rightarrow> None
      | Some (v, r) \<Rightarrow>
          (case skip_ws r of
             c # r' \<Rightarrow>
               if c = CHR '','' then map_option (apfst ((#) v)) (parse_elems n r')
               else if c = CHR '']'' then Some ([v], r') else None
           | [] \<Rightarrow> None))"
| "parse_members 0 cs = None"
| "parse_members (Suc n) cs =
     (case skip_ws cs of
        c # r \<Rightarrow>
          if c \<noteq> CHR 0x22 then None
          else (case parse_str r of
                  None \<Rightarrow> None
                | Some (k, r1) \<Rightarrow>
                    (case skip_ws r1 of
                       d # r2 \<Rightarrow>
                         if d \<noteq> CHR '':'' then None
                         else (case parse_value n r2 of
                                 None \<Rightarrow> None
                               | Some (v, r3) \<Rightarrow>
                                   (case skip_ws r3 of
                                      e # r4 \<Rightarrow>
                                        if e = CHR '','' then map_option (apfst ((#) (k, v))) (parse_members n r4)
                                        else if e = CHR ''}'' then Some ([(k, v)], r4) else None
                                    | [] \<Rightarrow> None))
                     | [] \<Rightarrow> None))
      | [] \<Rightarrow> None)"

definition json_parse :: "string \<Rightarrow> json option" where
  "json_parse cs =
     (case parse_value (Suc (2 * length cs)) cs of
        Some (v, r) \<Rightarrow> if skip_ws r = [] then Some v else None
      | None \<Rightarrow> None)"

definition num_end :: "string \<Rightarrow> bool" where
  "num_end r \<longleftrightarrow> r = [] \<or> \<not> is_digit (hd r) \<and> hd r \<notin> {CHR ''.'', CHR ''e'', CHR ''E''}"

definition term_end :: "string \<Rightarrow> bool" where
  "term_end r \<longleftrightarrow> r = [] \<or> hd r \<in> {CHR '','', CHR '']'', CHR ''}''}"

definition room_to_json :: "room \<Rightarrow> json" where
  "room_to_json r =
     JObj [(''id'', JStr (room_id r)), (''isPublic'', JBool (isPublic r)), (''ownerId'', JNum (ownerId r)),
           (''memberIds'', JArr (map JNum (memberIds r))), (''waitingIds'', JArr (map JNum (waitingIds r))),
           (''refusedIds'', JArr (map JNum (refusedIds r)))]"

fun json_str :: "json \<Rightarrow> string option" where
  "json_str (JStr s) = Some s"
| "json_str _ = None"

fun json_bool :: "json \<Rightarrow> bool option" where
  "json_bool (JBool b) = Some b"
| "json_bool _ = None"

fun json_num :: "json \<Rightarrow> int option" where
  "json_num (JNum i) = Some i"
| "json_num _ = None"

fun json_ints :: "json \<Rightarrow> int list option" where
  "json_ints (JArr vs) = those (map json_num vs)"
| "json_ints _ = None"

text \<open>Reading the fields of the parsed object: a property read returns the last
  occurrence of a key, as \<open>JSON.parse\<close> keeps the last duplicate.\<close>

definition room_of_json :: "json \<Rightarrow> room option" where
  "room_of_json j =
     (case j of
        JObj kvs \<Rightarrow>
          (let f = map_of (rev kvs)
           in case (Option.bind (f ''id'') json_str, Option.bind (f ''isPublic'') json_bool,
                    Option.bind (f ''ownerId'') json_num, Option.bind (f ''memberIds'') json_ints,
                    Option.bind (f ''waitingIds'') json_ints, Option.bind (f ''refusedIds'') json_ints) of
                (Some i, Some p, Some ow, Some ms, Some ws, Some rs) \<Rightarrow>
                  Some \<lparr>room_id = i, isPublic = p, ownerId = ow, memberIds = ms, waitingIds = ws,
                         refusedIds = rs\<rparr>
              | _ \<Rightarrow> None)
      | _ \<Rightarrow> None)"

subsection \<open>Strings\<close>

lemma hex_val_hex_digit: "d < 16 \<Longrightarrow> hex_val (hex_digit d) = Some d"
  by (auto simp: hex_digit_def hex_val_def less_Suc_eq numeral_eq_Suc)

lemma parse_str_esc: "parse_str (concat (map json_esc s) @ CHR 0x22 # r) = Some (s, r)"
proof (induction s)
  case Nil
  then show ?case by simp
next
  case (Cons c s)
  have hex: "hex_val (hex_digit (of_char c div 16)) = Some (of_char c div 16)"
    "hex_val (hex_digit (of_char c mod 16)) = Some (of_char c mod 16)" if "of_char c < (32::nat)"
    using that by (simp_all add: hex_val_hex_digit)
  have v: "(of_char c div 16) * 16 + of_char c mod 16 = (of_char c :: nat)" by simp
  show ?case
    using Cons hex v by (auto simp: json_esc_def hex_val_def Let_def)
qed

subsection \<open>Integers\<close>

lemma is_digit_decimal: "c \<in> set ''0123456789'' \<Longrightarrow> is_digit c"
  by (auto simp: is_digit_def)

lemma takeWhile_dropWhile_digits:
  assumes "set ds \<subseteq> set ''0123456789''" and "num_end r"
  shows "takeWhile is_digit (ds @ r) = ds \<and> dropWhile is_digit (ds @ r) = r"
proof -
  have "\<And>x. x \<in> set ds \<Longrightarrow> is_digit x" using assms(1) is_digit_decimal by blast
  moreover have "takeWhile is_digit r = [] \<and> dropWhile is_digit r = r"
    using assms(2) by (cases r) (simp_all add: num_end_def)
  ultimately show ?thesis by (simp add: takeWhile_append2 dropWhile_append2)
qed

lemma parse_int_js_String_nat:
  assumes e: "num_end r"
  shows "parse_int (js_String_nat n @ r) = Some (int n, r)"
proof -
  let ?ds = "js_String_nat n"
  have dg: "set ?ds \<subseteq> set ''0123456789''" and ne: "?ds \<noteq> []" using js_String_nat_digits by blast+
  have tw: "takeWhile is_digit (?ds @ r) = ?ds" and dw: "dropWhile is_digit (?ds @ r) = r"
    using takeWhile_dropWhile_digits [OF dg e] by simp_all
  have hd_not_minus: "hd ?ds \<noteq> CHR ''-''" using dg ne hd_in_set [OF ne] by auto
  have lead: "\<not> (hd ?ds = CHR ''0'' \<and> 1 < length ?ds)" using js_String_nat_lead [of n] by auto
  have rest: "\<not> (r \<noteq> [] \<and> hd r \<in> {CHR ''.'', CHR ''e'', CHR ''E''})" using e by (auto simp: num_end_def)
  obtain c cs where c: "?ds @ r = c # cs" and cd: "c = hd ?ds" using ne by (cases ?ds) auto
  show ?thesis
    using c cd hd_not_minus tw dw ne lead rest decimal_value_js_String_nat [of n]
    by (simp add: parse_int_def Let_def)
qed

lemma parse_int_js_String_int:
  assumes e: "num_end r"
  shows "parse_int (js_String_int i @ r) = Some (i, r)"
proof (cases "i < 0")
  case True
  let ?ds = "js_String_nat (nat (- i))"
  have dg: "set ?ds \<subseteq> set ''0123456789''" and ne: "?ds \<noteq> []" using js_String_nat_digits by blast+
  have tw: "takeWhile is_digit (?ds @ r) = ?ds" and dw: "dropWhile is_digit (?ds @ r) = r"
    using takeWhile_dropWhile_digits [OF dg e] by simp_all
  have lead: "\<not> (hd ?ds = CHR ''0'' \<and> 1 < length ?ds)" using js_String_nat_lead [of "nat (- i)"] by auto
  have rest: "\<not> (r \<noteq> [] \<and> hd r \<in> {CHR ''.'', CHR ''e'', CHR ''E''})" using e by (auto simp: num_end_def)
  show ?thesis
    using True tw dw ne lead rest decimal_value_js_String_nat [of "nat (- i)"]
    by (simp add: parse_int_def js_String_int_def Let_def)
next
  case False
  then show ?thesis using parse_int_js_String_nat [OF e, of "nat i"] by (simp add: js_String_int_def)
qed

subsection \<open>Values\<close>

lemma term_end_num_end: "term_end r \<Longrightarrow> num_end r"
  by (auto simp: term_end_def num_end_def is_digit_def)

lemma js_String_int_first:
  "\<exists>c cs. js_String_int i = c # cs \<and> (c = CHR ''-'' \<or> c \<in> set ''0123456789'')"
proof -
  have dg: "set (js_String_nat m) \<subseteq> set ''0123456789'' \<and> js_String_nat m \<noteq> []" for m
    by (rule js_String_nat_digits)
  show ?thesis
  proof (cases "i < 0")
    case True
    then show ?thesis by (simp add: js_String_int_def)
  next
    case False
    obtain c cs where "js_String_nat (nat i) = c # cs" using dg [of "nat i"] by (cases "js_String_nat (nat i)") auto
    with dg [of "nat i"] False show ?thesis by (auto simp: js_String_int_def)
  qed
qed

lemma parse_value_num:
  assumes "c = CHR ''-'' \<or> c \<in> set ''0123456789''"
  shows "parse_value (Suc m) (c # cs) = map_option (apfst JNum) (parse_int (c # cs))"
proof -
  have "\<not> is_ws c \<and> c \<noteq> CHR ''n'' \<and> c \<noteq> CHR ''t'' \<and> c \<noteq> CHR ''f'' \<and> c \<noteq> CHR 0x22 \<and>
      c \<noteq> CHR ''['' \<and> c \<noteq> CHR ''{'' \<and> (c = CHR ''-'' \<or> is_digit c)"
    using assms by (auto simp: is_ws_def is_digit_def)
  then show ?thesis by simp
qed

lemma json_print_first:
  "\<exists>c cs. json_print v = c # cs \<and> \<not> is_ws c \<and> c \<noteq> CHR '']'' \<and> c \<noteq> CHR ''}''"
proof (cases v)
  case (JNum i)
  with js_String_int_first [of i] show ?thesis by (auto simp: is_ws_def)
qed (auto simp: is_ws_def json_quote_def)

lemma skip_ws_print: "skip_ws (json_print v @ r) = json_print v @ r"
  using json_print_first [of v] by auto

lemma json_join_Cons2: "json_join (x # y # ys) = x @ CHR '','' # json_join (y # ys)"
  by simp

lemma parse_elems_print:
  assumes IH: "\<And>v n r. v \<in> set vs \<Longrightarrow> size v < n \<Longrightarrow> term_end r \<Longrightarrow>
                  parse_value n (json_print v @ r) = Some (v, r)"
    and ne: "vs \<noteq> []" and n: "size_list size vs < n"
  shows "parse_elems n (json_join (map json_print vs) @ CHR '']'' # r) = Some (vs, r)"
  using assms
proof (induction vs arbitrary: n)
  case Nil
  then show ?case by simp
next
  case (Cons v vs)
  obtain m where m: "n = Suc m" using Cons.prems(3) by (cases n) auto
  have vm: "size v < m" using Cons.prems(3) m by simp
  show ?case
  proof (cases vs)
    case Nil
    have "parse_value m (json_print v @ CHR '']'' # r) = Some (v, CHR '']'' # r)"
      using Cons.prems(1) [of v m "CHR '']'' # r"] vm by (simp add: term_end_def)
    with Nil m show ?thesis by (simp add: is_ws_def)
  next
    case (Cons w ws)
    let ?rest = "json_join (map json_print vs) @ CHR '']'' # r"
    have pv: "parse_value m (json_print v @ CHR '','' # ?rest) = Some (v, CHR '','' # ?rest)"
      using Cons.prems(1) [of v m "CHR '','' # ?rest"] vm by (simp add: term_end_def)
    have "parse_elems m ?rest = Some (vs, r)"
      using Cons.IH [of m] Cons.prems Cons m by simp
    with pv m Cons show ?thesis by (simp add: is_ws_def)
  qed
qed

lemma parse_members_print:
  assumes IH: "\<And>k v n r. (k, v) \<in> set kvs \<Longrightarrow> size v < n \<Longrightarrow> term_end r \<Longrightarrow>
                  parse_value n (json_print v @ r) = Some (v, r)"
    and ne: "kvs \<noteq> []" and n: "size_list (size_prod (\<lambda>x. 0) size) kvs < n"
  shows "parse_members n (json_join (map (\<lambda>(k, v). json_quote k @ '':'' @ json_print v) kvs) @ CHR ''}'' # r) =
           Some (kvs, r)"
  using assms
proof (induction kvs arbitrary: n)
  case Nil
  then show ?case by simp
next
  case (Cons kv kvs)
  obtain k v where kv: "kv = (k, v)" by fastforce
  obtain m where m: "n = Suc m" using Cons.prems(3) by (cases n) auto
  have vm: "size v < m" using Cons.prems(3) m kv by simp
  let ?q = "concat (map json_esc k)"
  show ?case
  proof (cases kvs)
    case Nil
    have "parse_value m (json_print v @ CHR ''}'' # r) = Some (v, CHR ''}'' # r)"
      using Cons.prems(1) [of k v m "CHR ''}'' # r"] kv vm by (simp add: term_end_def)
    with Nil m kv parse_str_esc [of k "CHR '':'' # json_print v @ CHR ''}'' # r"] show ?thesis
      by (simp add: json_quote_def is_ws_def)
  next
    case (Cons w ws)
    let ?rest = "json_join (map (\<lambda>(k, v). json_quote k @ '':'' @ json_print v) kvs) @ CHR ''}'' # r"
    have pv: "parse_value m (json_print v @ CHR '','' # ?rest) = Some (v, CHR '','' # ?rest)"
      using Cons.prems(1) [of k v m "CHR '','' # ?rest"] kv vm by (simp add: term_end_def)
    have "parse_members m ?rest = Some (kvs, r)"
    proof (rule Cons.IH)
      show "\<And>k v n r. (k, v) \<in> set kvs \<Longrightarrow> size v < n \<Longrightarrow> term_end r \<Longrightarrow>
              parse_value n (json_print v @ r) = Some (v, r)"
        by (rule Cons.prems(1)) auto
      show "kvs \<noteq> []" using Cons by simp
      show "size_list (size_prod (\<lambda>x. 0) size) kvs < m" using Cons.prems(3) m kv by simp
    qed
    with pv m Cons kv parse_str_esc [of k "CHR '':'' # json_print v @ CHR '','' # ?rest"] show ?thesis
      by (simp add: json_quote_def is_ws_def)
  qed
qed

lemma json_join_first:
  "vs \<noteq> [] \<Longrightarrow> \<exists>c cs. json_join (map json_print vs) = c # cs \<and> \<not> is_ws c \<and> c \<noteq> CHR '']''"
proof (cases vs)
  case (Cons v vs')
  obtain c cs where "json_print v = c # cs" "\<not> is_ws c" "c \<noteq> CHR '']''" using json_print_first [of v] by blast
  with Cons show ?thesis by (cases vs') auto
qed simp

lemma parse_print:
  "size v < n \<Longrightarrow> term_end r \<Longrightarrow> parse_value n (json_print v @ r) = Some (v, r)"
proof (induction v arbitrary: n r)
  case JNull
  then obtain m where "n = Suc m" by (cases n) auto
  then show ?case by (simp add: is_ws_def)
next
  case (JBool b)
  then obtain m where "n = Suc m" by (cases n) auto
  then show ?case by (cases b) (simp_all add: is_ws_def)
next
  case (JNum i)
  then obtain m where m: "n = Suc m" by (cases n) auto
  obtain c cs where c: "js_String_int i = c # cs" and cc: "c = CHR ''-'' \<or> c \<in> set ''0123456789''"
    using js_String_int_first by blast
  have "parse_int (js_String_int i @ r) = Some (i, r)"
    using parse_int_js_String_int [OF term_end_num_end [OF JNum.prems(2)]] .
  with parse_value_num [OF cc, of m "cs @ r"] c m show ?case by simp
next
  case (JStr s)
  then obtain m where "n = Suc m" by (cases n) auto
  then show ?case by (simp add: json_quote_def is_ws_def parse_str_esc)
next
  case (JArr vs)
  then obtain m where m: "n = Suc m" by (cases n) auto
  show ?case
  proof (cases "vs = []")
    case True
    with m show ?thesis by (simp add: is_ws_def)
  next
    case False
    obtain c cs where c: "json_join (map json_print vs) = c # cs" and ws: "\<not> is_ws c" and cb: "c \<noteq> CHR '']''"
      using json_join_first [OF False] by blast
    have "parse_elems m (json_join (map json_print vs) @ CHR '']'' # r) = Some (vs, r)"
      using parse_elems_print [OF JArr.IH False] JArr.prems(1) m by simp
    with c ws cb m show ?thesis by (simp add: is_ws_def)
  qed
next
  case (JObj kvs)
  then obtain m where m: "n = Suc m" by (cases n) auto
  show ?case
  proof (cases "kvs = []")
    case True
    with m show ?thesis by (simp add: is_ws_def)
  next
    case False
    have IH: "\<And>k v n r. (k, v) \<in> set kvs \<Longrightarrow> size v < n \<Longrightarrow> term_end r \<Longrightarrow>
                  parse_value n (json_print v @ r) = Some (v, r)"
      using JObj.IH by fastforce
    obtain k v kvs' where kv: "kvs = (k, v) # kvs'" using False by (cases kvs) auto
    have "parse_members m (json_join (map (\<lambda>(k, v). json_quote k @ '':'' @ json_print v) kvs) @ CHR ''}'' # r) =
        Some (kvs, r)"
      using parse_members_print [OF IH False] JObj.prems(1) m by simp
    with kv m show ?thesis by (cases kvs') (simp_all add: is_ws_def json_quote_def)
  qed
qed

lemma json_join_length: "sum_list (map length xs) + length xs \<le> Suc (length (json_join xs))"
  by (induction xs rule: json_join.induct) auto

lemma length_json_quote: "2 \<le> length (json_quote k)"
  by (simp add: json_quote_def)

lemma size_json_le: "size v \<le> length (json_print v)"
proof (induction v)
  case (JArr vs)
  have "sum_list (map size vs) \<le> sum_list (map length (map json_print vs))"
    using JArr.IH by (simp add: sum_list_mono)
  with json_join_length [of "map json_print vs"] show ?case by (simp add: size_list_conv_sum_list)
next
  case (JObj kvs)
  let ?m = "map (\<lambda>(k, v). json_quote k @ '':'' @ json_print v) kvs"
  have "(\<Sum>kv\<leftarrow>kvs. size_prod (\<lambda>x. 0) size kv + 1) \<le> sum_list (map length ?m)"
  proof -
    have "size_prod (\<lambda>x. 0) size kv + 1 \<le> length ((\<lambda>(k, v). json_quote k @ '':'' @ json_print v) kv)"
      if "kv \<in> set kvs" for kv
    proof -
      obtain k v where kv: "kv = (k, v)" by fastforce
      with that have "size v \<le> length (json_print v)" using JObj.IH by fastforce
      with kv length_json_quote [of k] show ?thesis by simp
    qed
    then have "(\<Sum>kv\<leftarrow>kvs. size_prod (\<lambda>x. 0) size kv + 1) \<le>
        (\<Sum>kv\<leftarrow>kvs. length ((\<lambda>(k, v). json_quote k @ '':'' @ json_print v) kv))"
      by (rule sum_list_mono)
    then show ?thesis by (simp add: comp_def)
  qed
  moreover have "(\<Sum>kv\<leftarrow>kvs. size_prod (\<lambda>x. 0) size kv + 1) =
      sum_list (map (size_prod (\<lambda>x. 0) size) kvs) + length kvs"
    by (induction kvs) auto
  ultimately show ?case using json_join_length [of ?m] by (simp add: size_list_conv_sum_list)
qed simp_all

lemma json_parse_print: "json_parse (json_print v) = Some v"
proof -
  have "size v < Suc (2 * length (json_print v))" using size_json_le [of v] by simp
  from parse_print [OF this, of "[]"] show ?thesis by (simp add: json_parse_def term_end_def)
qed

subsection \<open>Fuel\<close>

text \<open>
  Every successful call of the three parsing functions returns a strictly shorter
  rest, in the manner of the decreasing-rest lemmas of parser developments. Hence
  \<open>parse_value\<close> never needs more fuel than twice the input length (each
  nesting level costs two units, one in \<open>parse_value\<close> and one in
  \<open>parse_elems\<close> or \<open>parse_members\<close>): past that bound more fuel changes
  nothing, and a result obtained with any fuel is kept under more fuel.
\<close>

lemma map_option_apfst_Some:
  "map_option (apfst f) x = Some (a, b) \<longleftrightarrow> (\<exists>a'. x = Some (a', b) \<and> a = f a')"
  by (cases x) auto

lemma parse_str_u_Some:
  "(case cs' of [] \<Rightarrow> None | [h1] \<Rightarrow> None | [h1, h2] \<Rightarrow> None | [h1, h2, h3] \<Rightarrow> None
     | h1 # h2 # h3 # h4 # cs'' \<Rightarrow>
        (case hex_val h1 of None \<Rightarrow> None | Some a \<Rightarrow>
         case hex_val h2 of None \<Rightarrow> None | Some b \<Rightarrow>
         case hex_val h3 of None \<Rightarrow> None | Some c \<Rightarrow>
         case hex_val h4 of None \<Rightarrow> None | Some d \<Rightarrow>
           let v = ((a * 16 + b) * 16 + c) * 16 + d
           in if v < 256 then map_option (apfst ((#) (char_of v))) (parse_str cs'') else None)) = Some (s, r) \<Longrightarrow>
   \<exists>h1 h2 h3 h4 cs''. cs' = h1 # h2 # h3 # h4 # cs'' \<and> (\<exists>s'. parse_str cs'' = Some (s', r))"
  by (auto simp: Let_def map_option_apfst_Some split: list.splits option.splits if_splits)

lemma parse_str_Cons_Some:
  assumes p: "parse_str (c # cs) = Some (s, r)"
  shows "r = cs \<or> (\<exists>s'. parse_str cs = Some (s', r)) \<or>
         (\<exists>e cs'. cs = e # cs' \<and> (\<exists>s'. parse_str cs' = Some (s', r))) \<or>
         (\<exists>e h1 h2 h3 h4 cs'. cs = e # h1 # h2 # h3 # h4 # cs' \<and> (\<exists>s'. parse_str cs' = Some (s', r)))"
proof (cases "c = CHR 0x22")
  case True with p show ?thesis by simp
next
  case q: False
  show ?thesis
  proof (cases "c = CHR 0x5C")
    case True
    show ?thesis
    proof (cases cs)
      case Nil with p True q show ?thesis by simp
    next
      case (Cons e cs')
      from p True q Cons show ?thesis
        by (auto simp: map_option_apfst_Some split: if_split_asm dest!: parse_str_u_Some)
    qed
  next
    case False
    with p q show ?thesis by (auto simp: map_option_apfst_Some split: if_split_asm)
  qed
qed

lemma parse_str_shorter: "parse_str cs = Some (s, r) \<Longrightarrow> length r < length cs"
proof (induction cs arbitrary: s rule: length_induct)
  case (1 cs)
  show ?case
  proof (cases cs)
    case Nil with 1 show ?thesis by simp
  next
    case (Cons c cs0)
    have IH: "\<And>ys s'. length ys < length cs \<Longrightarrow> parse_str ys = Some (s', r) \<Longrightarrow> length r < length ys"
      using "1.IH" by blast
    from parse_str_Cons_Some [OF "1.prems"[unfolded Cons]] show ?thesis
    proof (elim disjE exE conjE)
      assume "r = cs0" with Cons show ?thesis by simp
    next
      fix s' assume "parse_str cs0 = Some (s', r)"
      with IH [of cs0] Cons show ?thesis by simp
    next
      fix e cs' s' assume "cs0 = e # cs'" "parse_str cs' = Some (s', r)"
      with IH [of cs'] Cons show ?thesis by simp
    next
      fix e h1 h2 h3 h4 cs' s' assume "cs0 = e # h1 # h2 # h3 # h4 # cs'" "parse_str cs' = Some (s', r)"
      with IH [of cs'] Cons show ?thesis by simp
    qed
  qed
qed


lemma skip_ws_length: "length (skip_ws cs) \<le> length cs"
  by (induction cs) auto

lemma skip_ws_Cons_shorter: "skip_ws cs = c # r \<Longrightarrow> length r < length cs"
  using skip_ws_length [of cs] by simp

lemma parse_int_shorter: "parse_int cs = Some (i, r) \<Longrightarrow> length r < length cs"
proof -
  assume p: "parse_int cs = Some (i, r)"
  obtain neg cs1 where n: "(neg, cs1) = (case cs of c # r \<Rightarrow> if c = CHR ''-'' then (True, r) else (False, cs) | [] \<Rightarrow> (False, []))"
    by (metis surj_pair)
  have l: "length cs1 \<le> length cs" using n by (auto split: list.splits if_splits)
  from p n have "takeWhile is_digit cs1 \<noteq> []" and r: "r = dropWhile is_digit cs1"
    by (auto simp: parse_int_def Let_def split: prod.splits if_splits)
  then have "length r < length cs1"
    by (metis length_append less_add_same_cancel2 length_greater_0_conv takeWhile_dropWhile_id)
  with l show ?thesis by simp
qed

lemma parse_value_Suc_Some:
  assumes "parse_value (Suc n) cs = Some (v, r)"
  obtains c r0 where "skip_ws cs = c # r0"
    and "r = drop 3 r0 \<or> r = drop 4 r0 \<or> (\<exists>s. parse_str r0 = Some (s, r)) \<or> (\<exists>d. skip_ws r0 = d # r) \<or>
         (\<exists>vs. parse_elems n r0 = Some (vs, r)) \<or> (\<exists>ms. parse_members n r0 = Some (ms, r)) \<or>
         (\<exists>i. parse_int (c # r0) = Some (i, r))"
proof (cases "skip_ws cs")
  case Nil with assms show ?thesis by simp
next
  case (Cons c r0)
  let ?D = "r = drop 3 r0 \<or> r = drop 4 r0 \<or> (\<exists>s. parse_str r0 = Some (s, r)) \<or> (\<exists>d. skip_ws r0 = d # r) \<or>
         (\<exists>vs. parse_elems n r0 = Some (vs, r)) \<or> (\<exists>ms. parse_members n r0 = Some (ms, r)) \<or>
         (\<exists>i. parse_int (c # r0) = Some (i, r))"
  have p: "parse_value (Suc n) cs = Some (v, r)" by fact
  have "?D"
  proof -
    consider "c = CHR ''n''" | "c = CHR ''t''" | "c = CHR ''f''" | "c = CHR 0x22" | "c = CHR ''[''" | "c = CHR ''{''"
      | "c \<noteq> CHR ''n''" "c \<noteq> CHR ''t''" "c \<noteq> CHR ''f''" "c \<noteq> CHR 0x22" "c \<noteq> CHR ''[''" "c \<noteq> CHR ''{''"
      by blast
    then show ?thesis
    proof cases
      case 1 with p Cons show ?thesis by (simp split: if_split_asm)
    next
      case 2 with p Cons show ?thesis by (simp split: if_split_asm)
    next
      case 3 with p Cons show ?thesis by (simp split: if_split_asm)
    next
      case 4 with p Cons show ?thesis by (auto simp: map_option_apfst_Some)
    next
      case 5 with p Cons show ?thesis
        by (cases "skip_ws r0") (auto simp: map_option_apfst_Some split: if_split_asm)
    next
      case 6 with p Cons show ?thesis
        by (cases "skip_ws r0") (auto simp: map_option_apfst_Some split: if_split_asm)
    next
      case 7
      with p Cons have "map_option (apfst JNum) (parse_int (c # r0)) = Some (v, r)"
        by (simp split: if_split_asm)
      then show ?thesis unfolding map_option_apfst_Some by blast
    qed
  qed
  with Cons that show ?thesis by blast
qed


lemma parse_elems_Suc_Some:
  assumes "parse_elems (Suc n) cs = Some (vs, r)"
  obtains v r1 c r2 where "parse_value n cs = Some (v, r1)" and "skip_ws r1 = c # r2"
    and "r = r2 \<or> (\<exists>vs'. parse_elems n r2 = Some (vs', r))"
proof (cases "parse_value n cs")
  case None with assms show ?thesis by simp
next
  case (Some y)
  obtain v r1 where y: "y = (v, r1)" by fastforce
  show ?thesis
  proof (cases "skip_ws r1")
    case Nil with assms Some y show ?thesis by simp
  next
    case (Cons c r2)
    with assms Some y have "r = r2 \<or> (\<exists>vs'. parse_elems n r2 = Some (vs', r))"
      by (auto simp: map_option_apfst_Some split: if_split_asm)
    with Some y Cons that show ?thesis by blast
  qed
qed

lemma parse_members_Suc_Some:
  assumes p: "parse_members (Suc n) cs = Some (ms, r)"
  obtains c r0 k r1 d r2 v r3 e r4 where "skip_ws cs = c # r0" and "parse_str r0 = Some (k, r1)"
    and "skip_ws r1 = d # r2" and "parse_value n r2 = Some (v, r3)" and "skip_ws r3 = e # r4"
    and "r = r4 \<or> (\<exists>ms'. parse_members n r4 = Some (ms', r))"
proof -
  obtain c r0 where s0: "skip_ws cs = c # r0" using p by (cases "skip_ws cs") auto
  obtain k r1 where s1: "parse_str r0 = Some (k, r1)"
    using p s0 by (cases "parse_str r0") (auto split: if_split_asm)
  obtain d r2 where s2: "skip_ws r1 = d # r2"
    using p s0 s1 by (cases "skip_ws r1") (auto split: if_split_asm)
  obtain v r3 where s3: "parse_value n r2 = Some (v, r3)"
    using p s0 s1 s2 by (cases "parse_value n r2") (auto split: if_split_asm)
  obtain e r4 where s4: "skip_ws r3 = e # r4"
    using p s0 s1 s2 s3 by (cases "skip_ws r3") (auto split: if_split_asm)
  have "r = r4 \<or> (\<exists>ms'. parse_members n r4 = Some (ms', r))"
    using p s0 s1 s2 s3 s4 by (auto simp: map_option_apfst_Some split: if_split_asm)
  with s0 s1 s2 s3 s4 that show ?thesis by blast
qed

lemma parse_shorter_all:
  "(\<forall>cs v r. parse_value n cs = Some (v, r) \<longrightarrow> length r < length cs) \<and>
   (\<forall>cs vs r. parse_elems n cs = Some (vs, r) \<longrightarrow> length r < length cs) \<and>
   (\<forall>cs ms r. parse_members n cs = Some (ms, r) \<longrightarrow> length r < length cs)"
proof (induction n)
  case 0 show ?case by simp
next
  case (Suc n)
  have IHv: "\<And>cs v r. parse_value n cs = Some (v, r) \<Longrightarrow> length r < length cs"
    and IHe: "\<And>cs vs r. parse_elems n cs = Some (vs, r) \<Longrightarrow> length r < length cs"
    and IHm: "\<And>cs ms r. parse_members n cs = Some (ms, r) \<Longrightarrow> length r < length cs"
    using Suc.IH by blast+
  have pv: "length r < length cs" if "parse_value (Suc n) cs = Some (v, r)" for cs v r
  proof -
    from that obtain c r0 where s0: "skip_ws cs = c # r0" and alt:
      "r = drop 3 r0 \<or> r = drop 4 r0 \<or> (\<exists>s. parse_str r0 = Some (s, r)) \<or> (\<exists>d. skip_ws r0 = d # r) \<or>
       (\<exists>vs. parse_elems n r0 = Some (vs, r)) \<or> (\<exists>ms. parse_members n r0 = Some (ms, r)) \<or>
       (\<exists>i. parse_int (c # r0) = Some (i, r))"
      by (rule parse_value_Suc_Some)
    have l0: "length (c # r0) \<le> length cs" using skip_ws_length [of cs] s0 by simp
    from alt have "length r < length (c # r0)"
      by (auto dest!: parse_str_shorter skip_ws_Cons_shorter parse_int_shorter IHe IHm)
    with l0 show ?thesis by simp
  qed
  have pe: "length r < length cs" if "parse_elems (Suc n) cs = Some (vs, r)" for cs vs r
  proof -
    from that obtain v r1 c r2 where "parse_value n cs = Some (v, r1)" "skip_ws r1 = c # r2"
      "r = r2 \<or> (\<exists>vs'. parse_elems n r2 = Some (vs', r))" by (rule parse_elems_Suc_Some)
    with IHv IHe skip_ws_Cons_shorter [of r1 c r2] show ?thesis by fastforce
  qed
  have pm: "length r < length cs" if "parse_members (Suc n) cs = Some (ms, r)" for cs ms r
  proof -
    from that obtain c r0 k r1 d r2 v r3 e r4 where "skip_ws cs = c # r0" "parse_str r0 = Some (k, r1)"
      "skip_ws r1 = d # r2" "parse_value n r2 = Some (v, r3)" "skip_ws r3 = e # r4"
      "r = r4 \<or> (\<exists>ms'. parse_members n r4 = Some (ms', r))" by (rule parse_members_Suc_Some)
    with IHv IHm skip_ws_Cons_shorter [of cs c r0] skip_ws_Cons_shorter [of r1 d r2]
      skip_ws_Cons_shorter [of r3 e r4] parse_str_shorter [of r0 k r1] show ?thesis by fastforce
  qed
  from pv pe pm show ?case by blast
qed

lemma parse_value_shorter: "parse_value n cs = Some (v, r) \<Longrightarrow> length r < length cs"
  using parse_shorter_all by blast



lemma parse_fuel_stable_all:
  "(\<forall>cs. 2 * length cs \<le> n \<longrightarrow> parse_value (Suc n) cs = parse_value n cs) \<and>
   (\<forall>cs. 2 * length cs + 1 \<le> n \<longrightarrow> parse_elems (Suc n) cs = parse_elems n cs) \<and>
   (\<forall>cs. 2 * length cs + 1 \<le> n \<longrightarrow> parse_members (Suc n) cs = parse_members n cs)"
proof (induction n)
  case 0 show ?case by simp
next
  case (Suc n)
  have IHv: "\<And>cs. 2 * length cs \<le> n \<Longrightarrow> parse_value (Suc n) cs = parse_value n cs"
    and IHe: "\<And>cs. 2 * length cs + 1 \<le> n \<Longrightarrow> parse_elems (Suc n) cs = parse_elems n cs"
    and IHm: "\<And>cs. 2 * length cs + 1 \<le> n \<Longrightarrow> parse_members (Suc n) cs = parse_members n cs"
    using Suc.IH by blast+
  have pv: "parse_value (Suc (Suc n)) cs = parse_value (Suc n) cs" if b: "2 * length cs \<le> Suc n" for cs
  proof (cases "skip_ws cs")
    case Nil then show ?thesis by simp
  next
    case (Cons c r0)
    have "2 * length r0 + 1 \<le> n" using skip_ws_Cons_shorter [OF Cons] b by simp
    then have "parse_elems (Suc n) r0 = parse_elems n r0" "parse_members (Suc n) r0 = parse_members n r0"
      by (rule IHe, rule IHm)
    then show ?thesis by (simp only: parse_value.simps(2) Cons list.case)
  qed
  have pe: "parse_elems (Suc (Suc n)) cs = parse_elems (Suc n) cs" if b: "2 * length cs + 1 \<le> Suc n" for cs
  proof -
    have "2 * length cs \<le> n" using b by simp
    then have v: "parse_value (Suc n) cs = parse_value n cs" by (rule IHv)
    show ?thesis
    proof (cases "parse_value n cs")
      case None with v show ?thesis by simp
    next
      case (Some y)
      obtain v r1 where y: "y = (v, r1)" by fastforce
      have l1: "length r1 < length cs" using parse_value_shorter Some y by blast
      show ?thesis
      proof (cases "skip_ws r1")
        case Nil with v Some y show ?thesis by simp
      next
        case (Cons c r2)
        have "2 * length r2 + 1 \<le> n" using skip_ws_Cons_shorter [OF Cons] l1 b by simp
        then have "parse_elems (Suc n) r2 = parse_elems n r2" by (rule IHe)
        with v Some y Cons show ?thesis by (simp only: parse_elems.simps(2) option.case prod.case list.case)
      qed
    qed
  qed
  have pm: "parse_members (Suc (Suc n)) cs = parse_members (Suc n) cs" if b: "2 * length cs + 1 \<le> Suc n" for cs
  proof (cases "skip_ws cs")
    case Nil then show ?thesis by simp
  next
    case (Cons c r0)
    have l0: "length r0 < length cs" by (rule skip_ws_Cons_shorter [OF Cons])
    show ?thesis
    proof (cases "parse_str r0")
      case None with Cons show ?thesis by simp
    next
      case (Some y)
      obtain k r1 where y: "y = (k, r1)" by fastforce
      have l1: "length r1 < length r0" using parse_str_shorter Some y by blast
      show ?thesis
      proof (cases "skip_ws r1")
        case Nil with Cons Some y show ?thesis by simp
      next
        case Cons2: (Cons d r2)
        have l2: "length r2 < length r1" by (rule skip_ws_Cons_shorter [OF Cons2])
        have "2 * length r2 \<le> n" using b l0 l1 l2 by simp
        then have v: "parse_value (Suc n) r2 = parse_value n r2" by (rule IHv)
        show ?thesis
        proof (cases "parse_value n r2")
          case None with Cons Some y Cons2 v show ?thesis by simp
        next
          case (Some z)
          obtain w r3 where z: "z = (w, r3)" by fastforce
          have l3: "length r3 < length r2" using parse_value_shorter Some z by blast
          show ?thesis
          proof (cases "skip_ws r3")
            case Nil with Cons \<open>parse_str r0 = Some y\<close> y Cons2 v Some z show ?thesis by simp
          next
            case Cons3: (Cons e r4)
            have "2 * length r4 + 1 \<le> n" using skip_ws_Cons_shorter [OF Cons3] b l0 l1 l2 l3 by simp
            then have "parse_members (Suc n) r4 = parse_members n r4" by (rule IHm)
            with Cons \<open>parse_str r0 = Some y\<close> y Cons2 v Some z Cons3 show ?thesis
              by (simp only: parse_members.simps(2) option.case prod.case list.case)
          qed
        qed
      qed
    qed
  qed
  from pv pe pm show ?case by blast
qed


lemma parse_fuel_mono_all:
  "(\<forall>cs. parse_value n cs \<noteq> None \<longrightarrow> parse_value (Suc n) cs = parse_value n cs) \<and>
   (\<forall>cs. parse_elems n cs \<noteq> None \<longrightarrow> parse_elems (Suc n) cs = parse_elems n cs) \<and>
   (\<forall>cs. parse_members n cs \<noteq> None \<longrightarrow> parse_members (Suc n) cs = parse_members n cs)"
proof (induction n)
  case 0 show ?case by simp
next
  case (Suc n)
  have IHv: "\<And>cs. parse_value n cs \<noteq> None \<Longrightarrow> parse_value (Suc n) cs = parse_value n cs"
    and IHe: "\<And>cs. parse_elems n cs \<noteq> None \<Longrightarrow> parse_elems (Suc n) cs = parse_elems n cs"
    and IHm: "\<And>cs. parse_members n cs \<noteq> None \<Longrightarrow> parse_members (Suc n) cs = parse_members n cs"
    using Suc.IH by blast+
  note simps_del = parse_elems.simps(2) parse_members.simps(2)
  have pv: "parse_value (Suc (Suc n)) cs = parse_value (Suc n) cs" if ne: "parse_value (Suc n) cs \<noteq> None" for cs
  proof (cases "skip_ws cs")
    case Nil then show ?thesis by simp
  next
    case (Cons c r0)
    consider "c = CHR ''[''" | "c = CHR ''{''" | "c \<noteq> CHR ''[''" "c \<noteq> CHR ''{''" by blast
    then show ?thesis
    proof cases
      case 1
      show ?thesis
      proof (cases "skip_ws r0")
        case Nil with Cons 1 show ?thesis by simp
      next
        case Cons2: (Cons d r')
        show ?thesis
        proof (cases "d = CHR '']''")
          case True with Cons 1 Cons2 show ?thesis by simp
        next
          case False
          with ne Cons 1 Cons2 have "parse_elems n r0 \<noteq> None" by simp
          then have "parse_elems (Suc n) r0 = parse_elems n r0" by (rule IHe)
          with Cons 1 Cons2 False show ?thesis by (simp del: simps_del)
        qed
      qed
    next
      case 2
      show ?thesis
      proof (cases "skip_ws r0")
        case Nil with Cons 2 show ?thesis by simp
      next
        case Cons2: (Cons d r')
        show ?thesis
        proof (cases "d = CHR ''}''")
          case True with Cons 2 Cons2 show ?thesis by simp
        next
          case False
          with ne Cons 2 Cons2 have "parse_members n r0 \<noteq> None" by simp
          then have "parse_members (Suc n) r0 = parse_members n r0" by (rule IHm)
          with Cons 2 Cons2 False show ?thesis by (simp del: simps_del)
        qed
      qed
    next
      case 3 with Cons show ?thesis by (simp del: simps_del)
    qed
  qed
  have pe: "parse_elems (Suc (Suc n)) cs = parse_elems (Suc n) cs" if ne: "parse_elems (Suc n) cs \<noteq> None" for cs
  proof (cases "parse_value n cs")
    case None with ne show ?thesis by simp
  next
    case (Some y)
    obtain v r1 where y: "y = (v, r1)" by fastforce
    have v: "parse_value (Suc n) cs = parse_value n cs" by (rule IHv) (simp add: Some)
    show ?thesis
    proof (cases "skip_ws r1")
      case Nil with v Some y show ?thesis by (simp only: parse_elems.simps(2) option.case prod.case list.case)
    next
      case (Cons c r2)
      show ?thesis
      proof (cases "c = CHR '',''")
        case True
        with ne Some y Cons have "parse_elems n r2 \<noteq> None" by simp
        then have "parse_elems (Suc n) r2 = parse_elems n r2" by (rule IHe)
        with v Some y Cons show ?thesis by (simp only: parse_elems.simps(2) option.case prod.case list.case)
      next
        case False with v Some y Cons show ?thesis
          by (simp only: parse_elems.simps(2) option.case prod.case list.case if_False)
      qed
    qed
  qed
  have pm: "parse_members (Suc (Suc n)) cs = parse_members (Suc n) cs" if ne: "parse_members (Suc n) cs \<noteq> None" for cs
  proof -
    from ne obtain ms r where "parse_members (Suc n) cs = Some (ms, r)" by auto
    then obtain c r0 k r1 d r2 v r3 e r4 where s0: "skip_ws cs = c # r0" and s1: "parse_str r0 = Some (k, r1)"
      and s2: "skip_ws r1 = d # r2" and s3: "parse_value n r2 = Some (v, r3)" and s4: "skip_ws r3 = e # r4"
      by (rule parse_members_Suc_Some)
    have v: "parse_value (Suc n) r2 = parse_value n r2" by (rule IHv) (simp add: s3)
    show ?thesis
    proof (cases "e = CHR '',''")
      case True
      with ne s0 s1 s2 s3 s4 have "parse_members n r4 \<noteq> None" by (auto split: if_split_asm)
      then have "parse_members (Suc n) r4 = parse_members n r4" by (rule IHm)
      with v s0 s1 s2 s3 s4 show ?thesis by (simp only: parse_members.simps(2) option.case prod.case list.case)
    next
      case False with v s0 s1 s2 s3 s4 show ?thesis
        by (simp only: parse_members.simps(2) option.case prod.case list.case if_False)
    qed
  qed
  from pv pe pm show ?case by blast
qed

lemma parse_value_fuel_mono:
  assumes ne: "parse_value n cs \<noteq> None" and le: "n \<le> m"
  shows "parse_value m cs = parse_value n cs"
  using le
proof (induction m rule: dec_induct)
  case base show ?case by simp
next
  case (step m)
  with ne parse_fuel_mono_all [of m] show ?case by simp
qed

lemma parse_value_fuel_stable:
  assumes b: "2 * length cs \<le> n" and le: "n \<le> m"
  shows "parse_value m cs = parse_value n cs"
  using le
proof (induction m rule: dec_induct)
  case base show ?case by simp
next
  case (step m)
  with b parse_fuel_stable_all [of m] show ?case by simp
qed

subsection \<open>Rooms\<close>

lemma those_json_num: "those (map (json_num \<circ> JNum) xs) = Some xs"
  by (induction xs) auto

text \<open>
  What RoomService writes with \<open>JSON.stringify(room)\<close> it reads back with
  \<open>JSON.parse\<close> as the same room: parsing the printed JSON of any room (any id
  string, escapes included, any integer ids) gives the room back. This is the
  round trip that lets the model's store hold room records instead of JSON text.
\<close>

theorem room_json_roundtrip:
  "Option.bind (json_parse (json_print (room_to_json r))) room_of_json = Some r"
  by (simp only: json_parse_print Option.bind.simps)
     (simp add: room_of_json_def room_to_json_def those_json_num)

lemma json_parse_fuel_adequate:
  "json_parse cs = Some v \<longleftrightarrow> (\<exists>n r. parse_value n cs = Some (v, r) \<and> skip_ws r = [])"
proof
  assume "json_parse cs = Some v"
  then show "\<exists>n r. parse_value n cs = Some (v, r) \<and> skip_ws r = []"
    by (auto simp: json_parse_def simp del: parse_value.simps split: option.splits if_splits; blast)
next
  assume "\<exists>n r. parse_value n cs = Some (v, r) \<and> skip_ws r = []"
  then obtain n r where p: "parse_value n cs = Some (v, r)" and w: "skip_ws r = []" by blast
  let ?F = "Suc (2 * length cs)"
  have "parse_value ?F cs = Some (v, r)"
  proof (cases "n \<le> ?F")
    case True with p parse_value_fuel_mono [of n cs ?F] show ?thesis by simp
  next
    case False
    then have "parse_value n cs = parse_value ?F cs" by (intro parse_value_fuel_stable) simp_all
    with p show ?thesis by simp
  qed
  with w show "json_parse cs = Some v" by (simp add: json_parse_def)
qed

text \<open>
  The fuel of the \<open>JSON.parse\<close> model is never the reason a stored room
  fails to be read: reading a text as a room, \<open>JSON.parse\<close> followed by taking
  the \<open>Room\<close> fields as \<open>RoomService.get\<close> does, succeeds exactly when the
  recursive-descent parser, given some amount of fuel, parses the whole text to a
  value with those fields. So the fuelled model of \<open>JSON.parse\<close> behaves as the
  unbounded parser, and it always returns.
\<close>

theorem room_read_fuel_adequate:
  "Option.bind (json_parse cs) room_of_json = Some r \<longleftrightarrow>
     (\<exists>n v rest. parse_value n cs = Some (v, rest) \<and> skip_ws rest = [] \<and> room_of_json v = Some r)"
  by (auto simp: bind_eq_Some_conv json_parse_fuel_adequate)

end
