(* ===== verification/Session.thy ===== *)
theory Session
  imports Gateway
begin

text \<open>
  The session handlers of \<open>TextChatGateway\<close> (src/src/module/chat/text-chat.gateway.ts):
  \<open>handleConnection\<close>, \<open>handleDisconnect\<close>, \<open>sendPrivateMessage\<close> and
  \<open>handleSendGroupMessage\<close>. The collaborators they call (\<open>ConnectionService\<close>,
  \<open>UserService\<close>, \<open>MessageService\<close>) are not part of the sources; they are the
  interface record \<open>services\<close> over an abstract state \<open>'us\<close>, and every lemma
  below holds for every implementation of it. The socket.io side is an outbox of
  emitted events, each with its destination: \<open>client.emit\<close> reaches the client's
  own socket, \<open>server.to(sids).emit\<close> the listed sockets, and
  \<open>client.to(room).emit\<close> the sockets in the room except the client's. A call
  \<open>client.to(x)\<close> without \<open>emit\<close> builds a broadcast operator and sends nothing.
  The acting user \<open>client.userId\<close> is a parameter (the interceptor that binds it is
  not among the sources). \<open>handleSendGroupMessage\<close> is modelled as its body runs on a
  payload; its parameter lacks \<open>@MessageBody()\<close>, so under NestJS the payload
  arrives undefined and the body throws at its first read of the payload
  (Dispatch). Private and group messages and the handlers here are unaffected by the
  argument-order mistakes of the other room handlers.
\<close>

subsection \<open>Definitions\<close>

type_synonym sid = string

datatype emit_event = UpdateFriendStatus | ErrorEvent | ReceivePrivateMessage | ReceiveGroupMessage

datatype active_status = Online

datatype message =
    FriendStatus uid "active_status option"   \<comment> \<open>\<open>{id, status}\<close>, \<open>status: null\<close> is \<open>None\<close>\<close>
  | ConnectError string                       \<comment> \<open>\<open>{event: ListenEvent.Connect, message}\<close>\<close>
  | PrivateMsg uid string uid                 \<comment> \<open>payload \<open>receiverId\<close>, its text, \<open>senderId\<close>\<close>
  | GroupMsg rid string uid                   \<comment> \<open>payload \<open>roomId\<close>, its text, \<open>senderId\<close>\<close>

datatype dest = Sock sid | Socks "sid list" | RoomExcept rid sid

record private_payload =
  receiverId :: uid
  private_text :: string

record group_payload =
  group_roomId :: rid
  group_text :: string

record 'us services =
  validateConnection :: "'us \<Rightarrow> sid \<Rightarrow> string + uid"
  userConnect :: "uid \<Rightarrow> sid \<Rightarrow> 'us \<Rightarrow> 'us"
  userDisconnect :: "uid \<Rightarrow> sid \<Rightarrow> 'us \<Rightarrow> 'us"
  getOnlineFriendsSocketIds :: "'us \<Rightarrow> uid \<Rightarrow> sid list list"
  getBySocketId :: "'us \<Rightarrow> sid \<Rightarrow> uid option"
  areFriends :: "'us \<Rightarrow> uid \<Rightarrow> uid \<Rightarrow> bool"
  getSocketIds :: "'us \<Rightarrow> uid \<Rightarrow> sid list"
  createPrivateMessage :: "uid \<Rightarrow> private_payload \<Rightarrow> 'us \<Rightarrow> 'us"

record 'us session =
  users :: 'us
  outbox :: "(dest \<times> emit_event \<times> message) list"
  closed :: "sid list"

datatype ws_error = RoomErr error | NotFriends  \<comment> \<open>'Only friends can send messages to each other!'\<close>

definition emit :: "dest \<Rightarrow> emit_event \<Rightarrow> message \<Rightarrow> 'us session \<Rightarrow> 'us session" where
  "emit d e m s = s\<lparr>outbox := outbox s @ [(d, e, m)]\<rparr>"

text \<open>The sockets an emitted event reaches, given the socket.io room memberships \<open>joined\<close>.\<close>

fun recipients :: "(rid \<Rightarrow> sid list) \<Rightarrow> dest \<Rightarrow> sid list" where
  "recipients joined (Sock c) = [c]"
| "recipients joined (Socks cs) = cs"
| "recipients joined (RoomExcept k c) = filter (\<lambda>x. x \<noteq> c) (joined k)"

definition handleConnection :: "'us services \<Rightarrow> sid \<Rightarrow> 'us session \<Rightarrow> 'us session" where
  "handleConnection svc client s =
     (case validateConnection svc (users s) client of
        Inl msg \<Rightarrow> (emit (Sock client) ErrorEvent (ConnectError msg) s)\<lparr>closed := closed s @ [client]\<rparr>
      | Inr u \<Rightarrow>
          let us = userConnect svc u client (users s);
              friendsSids = getOnlineFriendsSocketIds svc us u;
              _ = map (\<lambda>sids. (client, sids)) friendsSids
          in emit (Sock client) UpdateFriendStatus (FriendStatus u (Some Online)) (s\<lparr>users := us\<rparr>))"

definition handleDisconnect :: "'us services \<Rightarrow> sid \<Rightarrow> 'us session \<Rightarrow> 'us session" where
  "handleDisconnect svc client s =
     (case getBySocketId svc (users s) client of
        None \<Rightarrow> s
      | Some u \<Rightarrow>
          let us = userDisconnect svc u client (users s);
              friendsSids = getOnlineFriendsSocketIds svc us u;
              _ = map (\<lambda>sids. (client, sids)) friendsSids
          in emit (Sock client) UpdateFriendStatus (FriendStatus u None) (s\<lparr>users := us\<rparr>))"

definition sendPrivateMessage ::
  "'us services \<Rightarrow> uid \<Rightarrow> private_payload \<Rightarrow> 'us session \<Rightarrow> ws_error + 'us session" where
  "sendPrivateMessage svc userId payload s =
     (if \<not> areFriends svc (users s) userId (receiverId payload) then Inl NotFriends
      else
        let us = createPrivateMessage svc userId payload (users s);
            sids = getSocketIds svc us (receiverId payload)
        in Inr (emit (Socks sids) ReceivePrivateMessage
                  (PrivateMsg (receiverId payload) (private_text payload) userId) (s\<lparr>users := us\<rparr>)))"

definition handleSendGroupMessage ::
  "store \<Rightarrow> sid \<Rightarrow> uid \<Rightarrow> group_payload \<Rightarrow> 'us session \<Rightarrow> ws_error + 'us session" where
  "handleSendGroupMessage st client userId payload s =
     (case get st (group_roomId payload) of
        Inl e \<Rightarrow> Inl (RoomErr e)
      | Inr room \<Rightarrow>
          if userId \<notin> set (memberIds room) then Inl (RoomErr NotInRoom)
          else Inr (emit (RoomExcept (group_roomId payload) client) ReceiveGroupMessage
                     (GroupMsg (group_roomId payload) (group_text payload) userId) s))"

text \<open>
  A small implementation of the service interface, used only to run the handlers on
  concrete inputs: a table of which socket authenticates as which user, the online
  sockets, the friendship pairs and the persisted private messages.
\<close>

record demo_users =
  auth :: "(sid \<times> uid) list"
  online :: "(uid \<times> sid) list"
  friends :: "(uid \<times> uid) list"
  msgs :: "(uid \<times> private_payload) list"

definition demo_svc :: "demo_users services" where
  "demo_svc =
     \<lparr>validateConnection = (\<lambda>us c. case map_of (auth us) c of None \<Rightarrow> Inl ''Unauthorized'' | Some u \<Rightarrow> Inr u),
      userConnect = (\<lambda>u c us. us\<lparr>online := (u, c) # online us\<rparr>),
      userDisconnect = (\<lambda>u c us. us\<lparr>online := remove1 (u, c) (online us)\<rparr>),
      getOnlineFriendsSocketIds = (\<lambda>us u. map (\<lambda>v. map snd (filter (\<lambda>x. fst x = v) (online us)))
                                              (map snd (filter (\<lambda>x. fst x = u) (friends us)))),
      getBySocketId = (\<lambda>us c. map_option fst (find (\<lambda>x. snd x = c) (online us))),
      areFriends = (\<lambda>us a b. (a, b) \<in> set (friends us)),
      getSocketIds = (\<lambda>us u. map snd (filter (\<lambda>x. fst x = u) (online us))),
      createPrivateMessage = (\<lambda>u p us. us\<lparr>msgs := msgs us @ [(u, p)]\<rparr>)\<rparr>"

definition demo0 :: "demo_users session" where
  "demo0 = \<lparr>users = \<lparr>auth = [(''a'', 1), (''b'', 2)], online = [(2, ''b'')], friends = [(1, 2), (2, 1)], msgs = []\<rparr>,
            outbox = [], closed = []\<rparr>"

subsection \<open>Connection and disconnection\<close>

lemma handleConnection_Inl:
  "validateConnection svc (users s) c = Inl msg \<Longrightarrow>
   handleConnection svc c s = s\<lparr>outbox := outbox s @ [(Sock c, ErrorEvent, ConnectError msg)], closed := closed s @ [c]\<rparr>"
  by (simp add: handleConnection_def emit_def)

lemma handleConnection_Inr:
  "validateConnection svc (users s) c = Inr u \<Longrightarrow>
   handleConnection svc c s = s\<lparr>users := userConnect svc u c (users s),
      outbox := outbox s @ [(Sock c, UpdateFriendStatus, FriendStatus u (Some Online))]\<rparr>"
  by (simp add: handleConnection_def emit_def Let_def)

lemma handleDisconnect_Some:
  "getBySocketId svc (users s) c = Some u \<Longrightarrow>
   handleDisconnect svc c s = s\<lparr>users := userDisconnect svc u c (users s),
      outbox := outbox s @ [(Sock c, UpdateFriendStatus, FriendStatus u None)]\<rparr>"
  by (simp add: handleDisconnect_def emit_def Let_def)

lemma handleDisconnect_None:
  "getBySocketId svc (users s) c = None \<Longrightarrow> handleDisconnect svc c s = s"
  by (simp add: handleDisconnect_def)

text \<open>
  C29. After a successful connection the handler records the user as connected and
  emits one \<open>UpdateFriendStatus\<close> event, and that event goes to the connecting socket
  only: \<open>friendsSids.forEach((sids) => client.to(sids))\<close> builds broadcast operators
  and drops them, so no socket of an online friend receives the user's new status.
\<close>

theorem handleConnection_friends_not_notified:
  assumes v: "validateConnection svc (users s) c = Inr u"
    and f: "f \<in> set (concat (getOnlineFriendsSocketIds svc (userConnect svc u c (users s)) u))"
    and fc: "f \<noteq> c"
  shows "users (handleConnection svc c s) = userConnect svc u c (users s) \<and>
         closed (handleConnection svc c s) = closed s \<and>
         outbox (handleConnection svc c s) = outbox s @ [(Sock c, UpdateFriendStatus, FriendStatus u (Some Online))] \<and>
         (\<forall>x \<in> set (outbox (handleConnection svc c s)). f \<in> set (recipients joined (fst x)) \<longrightarrow> x \<in> set (outbox s))"
  using fc by (auto simp: handleConnection_Inr [OF v])

theorem handleConnection_friends_not_notified_witness:
  "validateConnection demo_svc (users demo0) ''a'' = Inr 1 \<and>
   ''b'' \<in> set (concat (getOnlineFriendsSocketIds demo_svc (userConnect demo_svc 1 ''a'' (users demo0)) 1)) \<and>
   outbox (handleConnection demo_svc ''a'' demo0) = [(Sock ''a'', UpdateFriendStatus, FriendStatus 1 (Some Online))] \<and>
   ''b'' \<notin> set (concat (map (recipients (\<lambda>k. []) \<circ> fst) (outbox (handleConnection demo_svc ''a'' demo0))))"
proof -
  have v: "validateConnection demo_svc (users demo0) ''a'' = Inr 1"
    and f: "''b'' \<in> set (concat (getOnlineFriendsSocketIds demo_svc (userConnect demo_svc 1 ''a'' (users demo0)) 1))"
    by (simp_all add: demo_svc_def demo0_def)
  have "''b'' \<noteq> ''a''" by simp
  from handleConnection_friends_not_notified [OF v f this, of "\<lambda>k. []"] v f show ?thesis
    by (auto simp: demo0_def)
qed

text \<open>
  A connection that \<open>validateConnection\<close> rejects leaves the user service
  untouched (\<open>userService.connect\<close> is never called), sends the socket exactly one
  \<open>Error\<close> event carrying the rejection message for the \<open>Connect\<close> event, and
  disconnects that socket.
\<close>

theorem handleConnection_rejected:
  assumes "validateConnection svc (users s) c = Inl msg"
  shows "users (handleConnection svc c s) = users s \<and>
         outbox (handleConnection svc c s) = outbox s @ [(Sock c, ErrorEvent, ConnectError msg)] \<and>
         closed (handleConnection svc c s) = closed s @ [c]"
  by (simp add: handleConnection_Inl [OF assms])

theorem handleConnection_rejected_witness:
  "validateConnection demo_svc (users demo0) ''z'' = Inl ''Unauthorized'' \<and>
   handleConnection demo_svc ''z'' demo0 = demo0\<lparr>outbox := [(Sock ''z'', ErrorEvent, ConnectError ''Unauthorized'')], closed := [''z'']\<rparr>"
proof -
  have v: "validateConnection demo_svc (users demo0) ''z'' = Inl ''Unauthorized''"
    by (simp add: demo_svc_def demo0_def)
  from handleConnection_rejected [OF v] v show ?thesis by (simp add: demo0_def)
qed

lemma demo0_session:
  "users demo0 = \<lparr>auth = [(''a'', 1), (''b'', 2)], online = [(2, ''b'')], friends = [(1, 2), (2, 1)], msgs = []\<rparr>"
  "outbox demo0 = []" "closed demo0 = []"
  by (simp_all add: demo0_def)

text \<open>
  A connection followed by the disconnection of the same socket, with a user
  service whose \<open>getBySocketId\<close> finds the user it has just connected on that
  socket: the user service sees \<open>connect\<close> then \<open>disconnect\<close>, and the only
  events of the whole session are the \<open>Online\<close> status and then the \<open>null\<close>
  status, both sent to the socket that connected (and, in the disconnect case,
  is going away). No other socket ever learns that the user came or went.
\<close>

theorem connect_then_disconnect:
  assumes v: "validateConnection svc (users s) c = Inr u"
    and g: "getBySocketId svc (userConnect svc u c (users s)) c = Some u"
  shows "handleDisconnect svc c (handleConnection svc c s) =
           s\<lparr>users := userDisconnect svc u c (userConnect svc u c (users s)),
             outbox := outbox s @ [(Sock c, UpdateFriendStatus, FriendStatus u (Some Online)),
                                   (Sock c, UpdateFriendStatus, FriendStatus u None)]\<rparr>"
  using g by (simp add: handleConnection_Inr [OF v] handleDisconnect_Some)

theorem connect_then_disconnect_witness:
  "handleDisconnect demo_svc ''a'' (handleConnection demo_svc ''a'' demo0) =
     demo0\<lparr>outbox := [(Sock ''a'', UpdateFriendStatus, FriendStatus 1 (Some Online)),
                      (Sock ''a'', UpdateFriendStatus, FriendStatus 1 None)]\<rparr>"
proof -
  have v: "validateConnection demo_svc (users demo0) ''a'' = Inr 1"
    and g: "getBySocketId demo_svc (userConnect demo_svc 1 ''a'' (users demo0)) ''a'' = Some 1"
    and u: "userDisconnect demo_svc 1 ''a'' (userConnect demo_svc 1 ''a'' (users demo0)) = users demo0"
    by (simp_all add: demo_svc_def demo0_session)
  show ?thesis using connect_then_disconnect [OF v g] u by (simp add: demo0_def)
qed

subsection \<open>Messages\<close>

text \<open>
  C32. A private message is accepted only between friends. An accepted message is
  persisted through \<open>createPrivateMessage\<close> before anything is emitted, the
  server closes no socket, and the sockets that receive something new are exactly
  the receiver's socket ids as the user service reports them after the message was
  stored, each receiving the text with the sender's id.
\<close>

theorem private_message_delivery:
  assumes ok: "sendPrivateMessage svc a p s = Inr s'"
  shows "areFriends svc (users s) a (receiverId p) \<and>
         users s' = createPrivateMessage svc a p (users s) \<and> closed s' = closed s \<and>
         map (snd \<circ> snd) (drop (length (outbox s)) (outbox s')) = [PrivateMsg (receiverId p) (private_text p) a] \<and>
         (\<forall>x. x \<in> set (concat (map (recipients joined \<circ> fst) (drop (length (outbox s)) (outbox s')))) \<longleftrightarrow>
              x \<in> set (getSocketIds svc (users s') (receiverId p)))"
proof -
  have f: "areFriends svc (users s) a (receiverId p)"
    using ok by (auto simp: sendPrivateMessage_def split: if_splits)
  with ok have "s' = emit (Socks (getSocketIds svc (createPrivateMessage svc a p (users s)) (receiverId p)))
                     ReceivePrivateMessage (PrivateMsg (receiverId p) (private_text p) a)
                     (s\<lparr>users := createPrivateMessage svc a p (users s)\<rparr>)"
    by (simp add: sendPrivateMessage_def Let_def)
  with f show ?thesis by (simp add: emit_def)
qed

lemma sendPrivateMessage_not_friends:
  "\<not> areFriends svc (users s) a (receiverId p) \<Longrightarrow> sendPrivateMessage svc a p s = Inl NotFriends"
  by (simp add: sendPrivateMessage_def)

theorem private_message_delivery_witness:
  "sendPrivateMessage demo_svc 1 \<lparr>receiverId = 2, private_text = ''hi''\<rparr> demo0 =
     Inr (demo0\<lparr>users := (users demo0)\<lparr>msgs := [(1, \<lparr>receiverId = 2, private_text = ''hi''\<rparr>)]\<rparr>,
                outbox := [(Socks [''b''], ReceivePrivateMessage, PrivateMsg 2 ''hi'' 1)]\<rparr>) \<and>
   set (concat (map (recipients (\<lambda>k. []) \<circ> fst)
     [(Socks [''b''], ReceivePrivateMessage, PrivateMsg 2 ''hi'' 1)])) = {''b''}"
proof -
  have ok: "sendPrivateMessage demo_svc 1 \<lparr>receiverId = 2, private_text = ''hi''\<rparr> demo0 =
     Inr (demo0\<lparr>users := (users demo0)\<lparr>msgs := [(1, \<lparr>receiverId = 2, private_text = ''hi''\<rparr>)]\<rparr>,
                outbox := [(Socks [''b''], ReceivePrivateMessage, PrivateMsg 2 ''hi'' 1)]\<rparr>)"
    by (simp add: sendPrivateMessage_def demo_svc_def demo0_def emit_def Let_def)
  from private_message_delivery [OF ok, of "\<lambda>k. []"] ok show ?thesis
    by (auto simp: demo_svc_def demo0_def)
qed

end
