(* ===== verification/RoomHandlers.thy ===== *)
theory RoomHandlers
  imports Session Json MultiRoom
begin

text \<open>
  The room handlers of \<open>TextChatGateway\<close> other than \<open>handleCreateRoom\<close> and
  \<open>handleJoinRoom\<close>: \<open>handleLeaveRoom\<close>, \<open>handleKickOutOfRoom\<close>,
  \<open>handleTransferOwnership\<close>, \<open>handleInviteToRoom\<close> and
  \<open>handleRespondInvitation\<close>. Each passes \<open>payload.roomId\<close> as the first argument
  of a RoomService method whose room id is its last parameter, so the service runs
  with values of other types than its signature declares. The payload fields are
  JavaScript values (\<open>jsval\<close>), and each service method is taken at JavaScript
  values (\<open>X_js\<close>): with numbers where the signature has numbers it is the typed
  model of RoomService at the key the template literal builds; otherwise it follows
  the code up to the first comparison, where JavaScript's strict equality between a
  number and a non-number fails (\<open>indexOf\<close> gives -1, \<open>includes\<close> false,
  \<open>!==\<close> true), which always ends the method with an error. The handlers are
  modelled as their bodies run on a payload. Under NestJS no payload arrives: their
  payload parameter lacks \<open>@MessageBody()\<close>, and Dispatch shows that the body
  then throws at its first read of \<open>payload.roomId\<close>, so these bodies are never
  reached through the gateway.
\<close>

subsection \<open>JavaScript values\<close>

datatype jsval = JSNum int | JSStr string | JSBool bool

text \<open>\<open>`${prefix}${v}`\<close>: the key suffix a value gives in a template literal.\<close>

fun js_key :: "jsval \<Rightarrow> string" where
  "js_key (JSNum i) = js_String_int i"
| "js_key (JSStr s) = s"
| "js_key (JSBool b) = (if b then ''true'' else ''false'')"

fun js_truthy :: "jsval \<Rightarrow> bool" where
  "js_truthy (JSNum i) = (i \<noteq> 0)"
| "js_truthy (JSStr s) = (s \<noteq> [])"
| "js_truthy (JSBool b) = b"

subsection \<open>RoomService methods at JavaScript values\<close>

text \<open>\<open>leave(leaverId, roomId)\<close>: \<open>get(roomId)\<close>, then
  \<open>memberIds.indexOf(leaverId)\<close>, which is -1 for a non-number.\<close>

definition leave_js :: "jsval \<Rightarrow> jsval \<Rightarrow> store \<Rightarrow> error + (room \<times> store)" where
  "leave_js leaverId roomId s =
     (case leaverId of
        JSNum u \<Rightarrow> leave u (js_key roomId) s
      | _ \<Rightarrow> (case get s (js_key roomId) of Inl e \<Rightarrow> Inl e | Inr r \<Rightarrow> Inl NotInRoom))"

text \<open>\<open>kick(kickerId, memberId, roomId)\<close>: \<open>kickerId === memberId\<close> sends it to
  \<open>leave\<close>; otherwise \<open>get(roomId)\<close>, \<open>room.ownerId !== kickerId\<close> (always
  true for a non-number kicker) and \<open>memberIds.indexOf(memberId)\<close>.\<close>

definition kick_js :: "jsval \<Rightarrow> jsval \<Rightarrow> jsval \<Rightarrow> store \<Rightarrow> error + (kick_result \<times> store)" where
  "kick_js kickerId memberId roomId s =
     (case (kickerId, memberId) of
        (JSNum k, JSNum m) \<Rightarrow> kick k m (js_key roomId) s
      | _ \<Rightarrow>
          if kickerId = memberId then
            (case get s (js_key roomId) of Inl e \<Rightarrow> Inl e | Inr r \<Rightarrow> Inl NotInRoom)
          else
            (case get s (js_key roomId) of
               Inl e \<Rightarrow> Inl e
             | Inr r \<Rightarrow>
                 (case kickerId of
                    JSNum k \<Rightarrow> if ownerId r \<noteq> k then Inl NotOwner else Inl MemberNotInRoom
                  | _ \<Rightarrow> Inl NotOwner)))"

text \<open>\<open>transferOwnership(ownerId, candidateId, roomId)\<close>: \<open>get(roomId)\<close>, then
  \<open>room.ownerId !== ownerId\<close>, then \<open>ownerId === candidateId ||
  !memberIds.includes(candidateId)\<close>.\<close>

definition transferOwnership_js :: "jsval \<Rightarrow> jsval \<Rightarrow> jsval \<Rightarrow> store \<Rightarrow> error + (room \<times> store)" where
  "transferOwnership_js oId candidateId roomId s =
     (case (oId, candidateId) of
        (JSNum o', JSNum c) \<Rightarrow> transferOwnership o' c (js_key roomId) s
      | _ \<Rightarrow>
          (case get s (js_key roomId) of
             Inl e \<Rightarrow> Inl e
           | Inr r \<Rightarrow>
               (case oId of
                  JSNum o' \<Rightarrow> if ownerId r \<noteq> o' then Inl NotOwner else Inl NewOwnerNotMember
                | _ \<Rightarrow> Inl NotOwner)))"

text \<open>\<open>invite(inviter, guestId, roomId)\<close> with a numeric guest: the pipeline reads
  the room and the guest's socket id, then \<open>memberIds.includes(inviter)\<close>.\<close>

definition invite_js :: "jsval \<Rightarrow> uid \<Rightarrow> jsval \<Rightarrow> store \<Rightarrow> error + ((room \<times> string) \<times> store)" where
  "invite_js inviter guestId roomId s =
     (case inviter of
        JSNum i \<Rightarrow> invite i guestId (js_key roomId) s
      | _ \<Rightarrow>
          (case rooms s (js_key roomId) of
             None \<Rightarrow> Inl RoomNotExist
           | Some r \<Rightarrow> (case uid2sid s guestId of None \<Rightarrow> Inl GuestOffline | Some _ \<Rightarrow> Inl NotInRoom)))"

text \<open>\<open>respondInvitation(guestId, isAccpeted, roomId)\<close>: \<open>get(roomId)\<close>, then
  \<open>waitingIds.indexOf(guestId)\<close>; \<open>if (isAccpeted)\<close> tests truthiness.\<close>

definition respondInvitation_js ::
  "bool \<Rightarrow> jsval \<Rightarrow> jsval \<Rightarrow> jsval \<Rightarrow> store \<Rightarrow> error + ((room \<times> room list) \<times> store)" where
  "respondInvitation_js allow guestId isAccpeted roomId s =
     (case guestId of
        JSNum g \<Rightarrow> respondInvitation allow g (js_truthy isAccpeted) (js_key roomId) s
      | _ \<Rightarrow> (case get s (js_key roomId) of Inl e \<Rightarrow> Inl e | Inr r \<Rightarrow> Inl NotInvited))"

subsection \<open>The handlers\<close>

text \<open>What a handler does to socket.io besides emitting: \<open>client.join(x)\<close> and
  \<open>client.leave(x)\<close>, with \<open>None\<close> for \<open>undefined\<close>. The targets of its
  emissions: \<open>server.to(x)\<close>, \<open>server.to(client.id).to(x)\<close>. An emitted
  \<open>room\<close> object is the list of its defined fields as JSON values.\<close>

datatype sock_op = SockJoin sid "rid option" | SockLeave sid "rid option"

datatype room_target = ToRoom "rid option" | ToSocketAndRoom sid "rid option" | ToSockets "sid list option"

datatype gw_event =
    RoomChanges room_event uid "(string \<times> json) list"   \<comment> \<open>\<open>{event, actorId, room}\<close>\<close>
  | RoomInvitation "rid option" uid                   \<comment> \<open>\<open>{roomId, inviterId}\<close>\<close>

type_synonym handler_out = "store \<times> sock_op list \<times> (room_target \<times> gw_event) list"

definition handleLeaveRoom :: "sid \<Rightarrow> uid \<Rightarrow> jsval \<Rightarrow> store \<Rightarrow> error + handler_out" where
  "handleLeaveRoom client userId roomId s =
     (case leave_js roomId (JSNum userId) s of
        Inl e \<Rightarrow> Inl e
      | Inr (room, s') \<Rightarrow>
          Inr (s', [SockLeave client (Some (room_id room))],
               [(ToSocketAndRoom client (Some (room_id room)),
                 RoomChanges LeaveEv userId [(''id'', JStr (room_id room)), (''memberIds'', JArr (map JNum (memberIds room)))])]))"

text \<open>\<open>kick\<close> returns \<open>{room, kickedMember...}\<close>, and the handler reads
  \<open>room.id\<close> and \<open>room.memberIds\<close> of that object: both are undefined.\<close>

definition handleKickOutOfRoom :: "sid \<Rightarrow> uid \<Rightarrow> jsval \<Rightarrow> jsval \<Rightarrow> store \<Rightarrow> error + handler_out" where
  "handleKickOutOfRoom client userId roomId memberId s =
     (case kick_js roomId (JSNum userId) memberId s of
        Inl e \<Rightarrow> Inl e
      | Inr (_, s') \<Rightarrow>
          Inr (s', [SockLeave client None], [(ToSocketAndRoom client None, RoomChanges KickEv userId [])]))"

definition handleTransferOwnership :: "sid \<Rightarrow> uid \<Rightarrow> jsval \<Rightarrow> jsval \<Rightarrow> store \<Rightarrow> error + handler_out" where
  "handleTransferOwnership client userId roomId candidateId s =
     (case transferOwnership_js roomId (JSNum userId) candidateId s of
        Inl e \<Rightarrow> Inl e
      | Inr (room, s') \<Rightarrow>
          Inr (s', [], [(ToRoom (Some (room_id room)),
                         RoomChanges OwnerEv userId [(''id'', JStr (room_id room)), (''ownerId'', JNum (ownerId room))])]))"

text \<open>\<open>invite\<close> returns \<open>{room, guestSocketId}\<close>; the handler destructures
  \<open>guestSIds\<close>, which is undefined.\<close>

definition handleInviteToRoom :: "sid \<Rightarrow> uid \<Rightarrow> jsval \<Rightarrow> jsval \<Rightarrow> store \<Rightarrow> error + handler_out" where
  "handleInviteToRoom client userId roomId guestId s =
     (case invite_js roomId userId guestId s of
        Inl e \<Rightarrow> Inl e
      | Inr ((room, _), s') \<Rightarrow>
          Inr (s', [], [(ToSockets None, RoomInvitation (Some (room_id room)) userId),
                        (ToRoom (Some (room_id room)),
                         RoomChanges InviteEv userId [(''id'', JStr (room_id room)), (''waitingIds'', JArr (map JNum (waitingIds room)))])]))"

text \<open>\<open>respondInvitation\<close> returns \<open>{room, leftRooms}\<close>, whose \<open>id\<close>,
  \<open>memberIds\<close>, \<open>waitingIds\<close> and \<open>refusedIds\<close> the handler reads: all
  undefined.\<close>

definition handleRespondInvitation ::
  "bool \<Rightarrow> sid \<Rightarrow> uid \<Rightarrow> jsval \<Rightarrow> jsval \<Rightarrow> store \<Rightarrow> error + handler_out" where
  "handleRespondInvitation allow client userId roomId isAccpeted s =
     (case respondInvitation_js allow roomId (JSNum userId) isAccpeted s of
        Inl e \<Rightarrow> Inl e
      | Inr (_, s') \<Rightarrow>
          Inr (s', if js_truthy isAccpeted then [SockJoin client None] else [],
               [(ToRoom None, RoomChanges JoinEv userId [])]))"

subsection \<open>Room keys of reachable stores\<close>

lemma reachable_keys:
  assumes "reachable allow s t"
  shows "keys_before s t \<and> (\<forall>k r. rooms s k = Some r \<longrightarrow> room_id r = k)"
proof (cases allow)
  case True
  with reachable_sys_inv_multi assms show ?thesis by (auto simp: sys_inv_multi_def store_inv_multi_def)
next
  case False
  with reachable_sys_inv assms show ?thesis by (auto simp: sys_inv_def dest: store_invD(1))
qed

end
