(* ===== verification/StatusMachine.thy ===== *)
theory StatusMachine
  imports Behaviour
begin

text \<open>
  The state machine of spec section 4 for one user and one room: absent, invited
  (\<open>waitingIds\<close>), member (\<open>memberIds\<close>), refused (\<open>refusedIds\<close>). The
  status of a user in a stored room is read from the room's lists (member first:
  the code never prunes \<open>refusedIds\<close> when a user becomes a member); a key with no
  stored room gives \<open>NoRoom\<close>, which is kept apart from \<open>Absent\<close> (a stored
  room that does not name the user). \<open>spec_move\<close> is the spec's machine, with
  \<open>book\<close> creating a room with its booker as member; \<open>code_move\<close> adds the two
  moves the code makes besides: the room deleted when its last member leaves
  (\<open>Member\<close> to \<open>NoRoom\<close>, and only then may a member stop being named by the
  room), and a public room entered again by a user who left it.
\<close>

subsection \<open>Definitions\<close>

datatype status = NoRoom | Absent | Waiting | Member | Refused

definition status :: "room option \<Rightarrow> uid \<Rightarrow> status" where
  "status ro u =
     (case ro of
        None \<Rightarrow> NoRoom
      | Some r \<Rightarrow>
          if u \<in> set (memberIds r) then Member
          else if u \<in> set (waitingIds r) then Waiting
          else if u \<in> set (refusedIds r) then Refused
          else Absent)"

inductive spec_move :: "status \<Rightarrow> status \<Rightarrow> bool" where
  stay: "spec_move x x"
| invited: "spec_move Absent Waiting"
| reinvited: "spec_move Refused Waiting"
| accepted: "spec_move Waiting Member"
| declined: "spec_move Waiting Refused"
| entered: "spec_move Absent Member"
| created: "spec_move NoRoom Member"
| departed: "spec_move Member Refused"

code_pred spec_move .

inductive code_move :: "status \<Rightarrow> status \<Rightarrow> bool" where
  spec: "spec_move x y \<Longrightarrow> code_move x y"
| deleted: "code_move Member NoRoom"
| rejoined: "code_move Refused Member"

code_pred code_move .

text \<open>The users a call names: the caller, and the target of a kick, transfer,
  invitation or answer.\<close>

fun subjects :: "op \<Rightarrow> uid list" where
  "subjects (Book u p) = [u]"
| "subjects (Join u k) = [u]"
| "subjects (Leave u k) = [u]"
| "subjects (LeaveAll u) = [u]"
| "subjects (Kick kr m k) = [kr, m]"
| "subjects (TransferOwnership ow c k) = [ow, c]"
| "subjects (Invite i g k) = [i, g]"
| "subjects (RespondInvitation g acc k) = [g]"

subsection \<open>Moves of one room\<close>

lemmas move_intros = code_move.intros spec_move.intros code_move.spec [OF spec_move.intros(1)]

lemma status_stay: "code_move (status ro u) (status ro u)"
  by (rule code_move.spec [OF spec_move.stay])

lemma status_member: "u \<in> set (memberIds r) \<Longrightarrow> status (Some r) u = Member"
  by (simp add: status_def)

lemma leave_cmds_fst_fields:
  "memberIds (fst (leave_cmds u r)) = memberIds r" "waitingIds (fst (leave_cmds u r)) = waitingIds r"
  "refusedIds (fst (leave_cmds u r)) = refusedIds r"
  by (simp_all add: leave_cmds_def Let_def)

lemma status_leave:
  assumes wf: "room_wf r" and k: "room_id r = k" and mem: "u \<in> set (memberIds r)"
  shows "code_move Member (status (rooms (exec (snd (leave_cmds u (drop_member u r))) s) k) u)"
proof -
  have m: "memberIds (drop_member u r) = remove1 u (memberIds r)" by (rule drop_member_present [OF mem])
  have d: "distinct (memberIds r)" and w: "u \<notin> set (waitingIds r)"
    using wf mem by (auto simp: room_wf_def)
  have gone: "u \<notin> set (remove1 u (memberIds r))" using d by simp
  show ?thesis
  proof (cases "memberIds (drop_member u r) = []")
    case True
    with leave_cmds_room [OF k, of u s] show ?thesis by (simp add: status_def code_move.deleted)
  next
    case False
    let ?r' = "fst (leave_cmds u (drop_member u r))"
    have "memberIds ?r' = remove1 u (memberIds r)" "waitingIds ?r' = waitingIds r"
      "u \<in> set (refusedIds ?r')"
      by (simp_all add: leave_cmds_fst_fields m) (simp add: drop_member_def)
    with False leave_cmds_room [OF k, of u s] gone w show ?thesis
      by (simp add: status_def code_move.spec spec_move.departed)
  qed
qed

lemma leave_cmds_other:
  "k \<noteq> room_id r \<Longrightarrow> rooms (exec (snd (leave_cmds u r)) s) k = rooms s k"
  by (simp add: leave_cmds_def Let_def)

lemma move_to_member: "x \<noteq> Member \<Longrightarrow> code_move x Member"
  by (cases x) (auto intro: move_intros)

lemma leave_exec_moves:
  assumes inv: "store_inv s" and r: "rooms s k1 = Some r" and mem: "u \<in> set (memberIds r)"
  shows "code_move (status (rooms s k) u) (status (rooms (exec (snd (leave_cmds u (drop_member u r))) s) k) u)"
proof (cases "k = k1")
  case True
  have id: "room_id r = k1" and wf: "room_wf r" using store_invD(1,2) [OF inv r] by auto
  from status_leave [OF wf id mem, of s] True r mem show ?thesis by (simp add: status_member)
next
  case False
  have "room_id (drop_member u r) = k1" using store_invD(1) [OF inv r] by simp
  with False show ?thesis by (simp add: leave_cmds_other status_stay)
qed

subsection \<open>Moves of each call\<close>

lemma book_moves:
  assumes kb: "keys_before s t" and ok: "book False u p t s = Inr (r', s')"
  shows "code_move (status (rooms s k) u) (status (rooms s' k) u)"
proof -
  have fresh: "rooms s (js_String_nat t) = None" by (rule keys_before_fresh [OF kb])
  from ok have r': "memberIds r' = [u]" and s': "rooms s' = (rooms s)(js_String_nat t \<mapsto> r')"
    by (auto simp: book_Inr)
  show ?thesis
  proof (cases "k = js_String_nat t")
    case True with fresh r' s' show ?thesis by (simp add: status_def move_intros)
  next
    case False with s' show ?thesis by (simp add: status_stay)
  qed
qed

lemma join_moves:
  assumes inv: "store_inv s" and ok: "join False u k1 s = Inr (r', s')"
  shows "code_move (status (rooms s k) u) (status (rooms s' k) u)"
proof -
  from ok obtain r where ix: "uid2rids s u = []" and r: "rooms s k1 = Some r"
    and r': "r' = join_room u r" and s': "s' = exec [SET (room_id r') r', LPUSH u (room_id r')] s"
    by (auto simp: join_Inr)
  have id: "room_id r' = k1" using store_invD(1) [OF inv r] r' by (simp add: join_room_def Let_def)
  have out: "u \<notin> set (memberIds r)" using store_invD(4) [OF inv, of k1 u] ix r by simp
  have "u \<in> set (memberIds r')" by (simp add: r' join_room_def Let_def)
  then have new: "status (rooms s' k1) u = Member" by (simp add: s' id status_member)
  have old: "status (rooms s k1) u \<noteq> Member" using out r by (simp add: status_def)
  show ?thesis
  proof (cases "k = k1")
    case True with new old show ?thesis by (simp add: move_to_member)
  next
    case False with s' id show ?thesis by (simp add: status_stay)
  qed
qed

lemma leave_moves:
  assumes inv: "store_inv s" and ok: "leave u k1 s = Inr (r', s')"
  shows "code_move (status (rooms s k) u) (status (rooms s' k) u)"
proof -
  from ok obtain r cs where r: "rooms s k1 = Some r" and mem: "u \<in> set (memberIds r)"
    and lc: "leave_cmds u (drop_member u r) = (r', cs)" and s': "s' = exec cs s"
    by (auto simp: leave_Inr)
  from leave_exec_moves [OF inv r mem, of k] lc s' show ?thesis by simp
qed

lemma leaveAll_moves:
  assumes inv: "store_inv s" and sr: "single_room s" and ok: "leaveMany u [] s = (rs, s')"
  shows "code_move (status (rooms s k) u) (status (rooms s' k) u)"
proof (cases "uid2rids s u")
  case Nil
  then have "s' = s" using ok by (simp add: leaveMany_def leaveMany_plan_def)
  then show ?thesis by (simp add: status_stay)
next
  case (Cons k2 ks)
  obtain r2 where ks: "ks = []" and r2: "rooms s k2 = Some r2" and mem: "u \<in> set (memberIds r2)"
    using single_room_index_Cons [OF inv sr Cons] by blast
  from leaveMany_one_room [of s u k2 r2] Cons ks r2 ok
  have "s' = exec (snd (leave_cmds u (drop_member u r2))) s" by simp
  with leave_exec_moves [OF inv r2 mem, of k] show ?thesis by simp
qed

lemma kick_moves:
  assumes inv: "store_inv s" and ok: "kick kr m k1 s = Inr (res, s')" and u: "u \<in> {kr, m}"
  shows "code_move (status (rooms s k) u) (status (rooms s' k) u)"
proof (cases "kr = m")
  case True
  with ok obtain r' where "leave m k1 s = Inr (r', s')"
    by (auto simp: kick_self split: sum.splits)
  with leave_moves [OF inv] u True show ?thesis by auto
next
  case False
  from ok False obtain r where r: "rooms s k1 = Some r" and o: "ownerId r = kr" and mem: "m \<in> set (memberIds r)"
    and s': "s' = exec [SET (room_id r) (drop_member m r), LREM m 1 (room_id r)] s"
    by (auto simp: kick_other_Inr)
  have id: "room_id r = k1" and wf: "room_wf r" using store_invD(1,2) [OF inv r] by auto
  have d: "distinct (memberIds r)" and w: "m \<notin> set (waitingIds r)" and om: "kr \<in> set (memberIds r)"
    using wf mem o by (auto simp: room_wf_def)
  have dm: "memberIds (drop_member m r) = remove1 m (memberIds r)" by (rule drop_member_present [OF mem])
  have new: "status (Some (drop_member m r)) m = Refused" "status (Some (drop_member m r)) kr = Member"
    using d w om False by (auto simp: status_def dm) (simp_all add: drop_member_def)
  show ?thesis
  proof (cases "k = k1")
    case True
    with u r mem om new s' id show ?thesis by (auto simp: status_member move_intros)
  next
    case False with s' id show ?thesis by (simp add: status_stay)
  qed
qed

lemma transferOwnership_moves:
  assumes inv: "store_inv s" and ok: "transferOwnership ow c k1 s = Inr (r', s')"
  shows "code_move (status (rooms s k) u) (status (rooms s' k) u)"
proof -
  from ok obtain r where r: "rooms s k1 = Some r" and s': "s' = exec [SET (room_id r) (r\<lparr>ownerId := c\<rparr>)] s"
    by (auto simp: transferOwnership_Inr)
  have id: "room_id r = k1" using store_invD(1) [OF inv r] .
  have "status (rooms s' k) u = status (rooms s k) u" using r by (simp add: s' id status_def)
  then show ?thesis by (simp add: status_stay)
qed

lemma invite_moves:
  assumes inv: "store_inv s" and ok: "invite i g k1 s = Inr (res, s')" and u: "u \<in> {i, g}"
  shows "code_move (status (rooms s k) u) (status (rooms s' k) u)"
proof -
  from ok obtain r where r: "rooms s k1 = Some r" and im: "i \<in> set (memberIds r)"
    and gm: "g \<notin> set (memberIds r)" and gw: "g \<notin> set (waitingIds r)"
    and s': "s' = exec [SET (room_id r) (invite_room g r)] s"
    by (auto simp: invite_Inr)
  have id: "room_id r = k1" using store_invD(1) [OF inv r] .
  have fields: "memberIds (invite_room g r) = memberIds r" "g \<in> set (waitingIds (invite_room g r))"
    by (simp_all add: invite_room_def Let_def)
  have old_g: "status (rooms s k1) g \<in> {Absent, Refused}" using r gm gw by (simp add: status_def)
  have new_g: "status (rooms s' k1) g = Waiting" using gm fields by (simp add: s' id status_def)
  have new_i: "status (rooms s' k1) i = Member" using im fields by (simp add: s' id status_member)
  show ?thesis
  proof (cases "k = k1")
    case True
    with u old_g new_g new_i r im show ?thesis by (auto simp: status_member move_intros)
  next
    case False with s' id show ?thesis by (simp add: status_stay)
  qed
qed

lemma respondInvitation_moves:
  assumes inv: "store_inv s" and sr: "single_room s" and ok: "respondInvitation False g acc k1 s = Inr (res, s')"
  shows "code_move (status (rooms s k) g) (status (rooms s' k) g)"
proof -
  obtain r where r: "rooms s k1 = Some r" and gw: "g \<in> set (waitingIds r)"
    and acc_s': "acc \<Longrightarrow> s' = exec [LPUSH g (room_id r),
            SET (room_id r) (r\<lparr>waitingIds := remove1 g (waitingIds r), memberIds := memberIds r @ [g]\<rparr>)]
          (if isMemberOfAny s g then snd (leaveMany g [] s) else s)"
    and dec_s': "\<not> acc \<Longrightarrow> s' = exec [SET (room_id r)
            (r\<lparr>waitingIds := remove1 g (waitingIds r), refusedIds := refusedIds r @ [g]\<rparr>)] s"
    using respondInvitation_Inr [OF ok] by auto
  have id: "room_id r = k1" and wf: "room_wf r" using store_invD(1,2) [OF inv r] by auto
  have gm: "g \<notin> set (memberIds r)" and dw: "distinct (waitingIds r)" using wf gw by (auto simp: room_wf_def)
  have old: "status (rooms s k1) g = Waiting" using r gm gw by (simp add: status_def)
  show ?thesis
  proof (cases acc)
    case True
    note s' = acc_s' [OF True]
    show ?thesis
    proof (cases "k = k1")
      case True
      with old s' id show ?thesis by (simp add: status_member move_intros)
    next
      case kk: False
      let ?s1 = "if isMemberOfAny s g then snd (leaveMany g [] s) else s"
      have eq: "rooms s' k = rooms ?s1 k" using kk by (simp add: s' id)
      have "code_move (status (rooms s k) g) (status (rooms ?s1 k) g)"
      proof (cases "isMemberOfAny s g")
        case False then show ?thesis by (simp add: status_stay)
      next
        case True
        then obtain rs s1 where lm: "leaveMany g [] s = (rs, s1)" by (cases "leaveMany g [] s") simp
        with leaveAll_moves [OF inv sr lm] True show ?thesis by simp
      qed
      with eq show ?thesis by simp
    qed
  next
    case False
    note s' = dec_s' [OF False]
    have new: "status (rooms s' k1) g = Refused" using gm dw by (simp add: s' id status_def)
    show ?thesis
    proof (cases "k = k1")
      case True with old new show ?thesis by (simp add: move_intros)
    next
      case False with s' id show ?thesis by (simp add: status_stay)
    qed
  qed
qed

text \<open>
  C34. With the single-room policy on, every successful call in a reachable state
  moves each user it names, in every room, along the spec's state machine or along
  one of the two extra moves of the code: the room is deleted when its last member
  leaves (\<open>Member\<close> to \<open>NoRoom\<close>), and a user who left a public room joins it
  again directly (\<open>Refused\<close> to \<open>Member\<close>), which the spec only allows through a
  new invitation. A member of a room that is still stored can only become
  \<open>Refused\<close>: leaving and being kicked record the user in \<open>refusedIds\<close>.
\<close>

theorem step_subjects_move:
  assumes reach: "reachable False s t" and ok: "step False t a s = Inr s'" and u: "u \<in> set (subjects a)"
  shows "code_move (status (rooms s k) u) (status (rooms s' k) u)"
proof -
  have si: "sys_inv False s t" by (rule reachable_sys_inv [OF reach])
  have inv: "store_inv s" and sr: "single_room s" and kb: "keys_before s t"
    using si by (auto simp: sys_inv_def)
  from ok show ?thesis
  proof (cases rule: step_InrE)
    case (Book v p r') with u book_moves [OF kb] show ?thesis by simp
  next
    case (Join v k1 r') with u join_moves [OF inv] show ?thesis by simp
  next
    case (Leave v k1 r') with u leave_moves [OF inv] show ?thesis by simp
  next
    case (LeaveAll v rs) with u leaveAll_moves [OF inv sr] show ?thesis by simp
  next
    case (Kick kr m k1 res) with u kick_moves [OF inv] show ?thesis by simp
  next
    case (TransferOwnership ow c k1 r') with transferOwnership_moves [OF inv] show ?thesis by simp
  next
    case (Invite i g k1 res) with u invite_moves [OF inv] show ?thesis by simp
  next
    case (RespondInvitation g acc k1 res) with u respondInvitation_moves [OF inv sr] show ?thesis by simp
  qed
qed

theorem step_subjects_move_witness:
  "reachable False store1 2 \<and>
   step False 2 (Leave 1 ''0'') store1 =
     Inr (exec [SET ''0'' (room1\<lparr>ownerId := 2, memberIds := [2], refusedIds := [1]\<rparr>), LREM 1 1 ''0''] store1) \<and>
   status (rooms store1 ''0'') 1 = Member \<and>
   status (rooms (exec [SET ''0'' (room1\<lparr>ownerId := 2, memberIds := [2], refusedIds := [1]\<rparr>), LREM 1 1 ''0''] store1) ''0'') 1 = Refused \<and>
   code_move Member Refused"
proof -
  have r1: "reachable False store0 1" by (rule store0_reachable)
  have "step False 1 (Join 2 ''0'') store0 = Inr store1" by (simp add: store_of_def join_store0)
  from reachable.call [OF r1 this] have r2: "reachable False store1 2" by (simp add: numeral_2_eq_2)
  have st: "step False 2 (Leave 1 ''0'') store1 =
     Inr (exec [SET ''0'' (room1\<lparr>ownerId := 2, memberIds := [2], refusedIds := [1]\<rparr>), LREM 1 1 ''0''] store1)"
    by (simp add: store_of_def leave_def leave_plan_def get_def leave_cmds_def drop_member_def Let_def
        js_splice1_def store1_def store0_def room1_def commit_def)
  from step_subjects_move [OF r2 st, of 1 "''0''"] r2 st show ?thesis
    by (simp add: status_def store1_def store0_def room1_def)
qed

end
