(* ===== verification/StoreFailure.thy ===== *)
theory StoreFailure
  imports Behaviour
begin

text \<open>
  Store failures in the middle of a call (spec section 7, \<open>StoreUnavailable\<close>). An
  ioredis pipeline is not a transaction: its commands are sent in order, and when
  the connection fails part-way the commands before the failure have been applied
  and the rest have not. \<open>pipeline\<close> gives, for a successful call, the last
  pipeline it sends and the store that pipeline starts from (for
  \<open>respondInvitation\<close>, the store after the \<open>leaveMany\<close> it runs first);
  \<open>exec (take n cs)\<close> is the store when the failure comes after \<open>n\<close> commands.
\<close>

subsection \<open>Definitions\<close>

definition plan_cmds :: "error + ('a \<times> cmd list) \<Rightarrow> cmd list option" where
  "plan_cmds p = (case p of Inl e \<Rightarrow> None | Inr (a, cs) \<Rightarrow> Some cs)"

text \<open>The last pipeline of \<open>respondInvitation\<close> (lines 369-406), with the store
  left by the \<open>leaveMany\<close> it may run before it.\<close>

definition respondInvitation_pipeline ::
  "bool \<Rightarrow> uid \<Rightarrow> bool \<Rightarrow> rid \<Rightarrow> store \<Rightarrow> (store \<times> cmd list) option" where
  "respondInvitation_pipeline allow guestId isAccepted roomId s =
     (case get s roomId of
        Inl e \<Rightarrow> None
      | Inr r \<Rightarrow>
          (let i = js_indexOf (waitingIds r) guestId in
           if i = -1 then None
           else
             let r1 = r\<lparr>waitingIds := js_splice1 (waitingIds r) i\<rparr> in
             if isAccepted then
               (let s1 = (if \<not> allow \<and> isMemberOfAny s guestId then snd (leaveMany guestId [] s) else s);
                    r2 = r1\<lparr>memberIds := memberIds r1 @ [guestId]\<rparr>
                in Some (s1, [LPUSH guestId (room_id r2), SET (room_id r2) r2]))
             else
               (let r2 = r1\<lparr>refusedIds := refusedIds r1 @ [guestId]\<rparr>
                in Some (s, [SET (room_id r2) r2]))))"

fun pipeline :: "bool \<Rightarrow> nat \<Rightarrow> op \<Rightarrow> store \<Rightarrow> (store \<times> cmd list) option" where
  "pipeline allow t (Book u p) s = map_option (Pair s) (plan_cmds (book_plan allow u p t s))"
| "pipeline allow t (Join u k) s = map_option (Pair s) (plan_cmds (join_plan allow u k s))"
| "pipeline allow t (Leave u k) s = map_option (Pair s) (plan_cmds (leave_plan u k s))"
| "pipeline allow t (LeaveAll u) s = Some (s, snd (leaveMany_plan u [] s))"
| "pipeline allow t (Kick kr m k) s = map_option (Pair s) (plan_cmds (kick_plan kr m k s))"
| "pipeline allow t (TransferOwnership ow c k) s =
     map_option (Pair s) (plan_cmds (transferOwnership_plan ow c k s))"
| "pipeline allow t (Invite i g k) s = map_option (Pair s) (plan_cmds (invite_plan i g k s))"
| "pipeline allow t (RespondInvitation g acc k) s = respondInvitation_pipeline allow g acc k s"

text \<open>The reverse index agrees with the rooms for every user and room but possibly
  the pair \<open>(u, k)\<close>.\<close>

definition index_ok_except :: "store \<Rightarrow> uid \<Rightarrow> rid \<Rightarrow> bool" where
  "index_ok_except s u k \<longleftrightarrow>
     (\<forall>v k'. (v, k') \<noteq> (u, k) \<longrightarrow>
        (k' \<in> set (uid2rids s v) \<longleftrightarrow> (\<exists>r. rooms s k' = Some r \<and> v \<in> set (memberIds r))))"

definition rooms_ok :: "store \<Rightarrow> bool" where
  "rooms_ok s \<longleftrightarrow> (\<forall>k r. rooms s k = Some r \<longrightarrow> room_id r = k \<and> room_wf r)"

fun room_cmd :: "cmd \<Rightarrow> bool" where
  "room_cmd (SET k r) = True"
| "room_cmd (DEL k) = True"
| "room_cmd _ = False"

fun index_cmd :: "uid \<Rightarrow> rid \<Rightarrow> cmd \<Rightarrow> bool" where
  "index_cmd u k (LPUSH v k') = (v = u \<and> k' = k)"
| "index_cmd u k (LREM v c k') = (v = u \<and> k' = k \<and> c \<noteq> 0)"
| "index_cmd u k _ = False"

text \<open>The pipelines the single-room coordinator sends: empty, one room write, or a
  room write and one reverse-index update of user \<open>u\<close> at key \<open>k\<close>, in either order.\<close>

definition pipeline_shape :: "uid \<Rightarrow> rid \<Rightarrow> cmd list \<Rightarrow> bool" where
  "pipeline_shape u k cs \<longleftrightarrow>
     cs = [] \<or> (\<exists>c. cs = [c] \<and> room_cmd c) \<or>
     (\<exists>c1 c2. cs = [c1, c2] \<and> room_cmd c1 \<and> index_cmd u k c2) \<or>
     (\<exists>c1 c2. cs = [c2, c1] \<and> room_cmd c1 \<and> index_cmd u k c2)"

subsection \<open>One command at a time\<close>

lemma room_cmd_index: "room_cmd c \<Longrightarrow> uid2rids (apply_cmd c s) = uid2rids s"
  by (cases c) simp_all

lemma index_cmd_rooms: "index_cmd u k c \<Longrightarrow> rooms (apply_cmd c s) = rooms s"
  by (cases c) simp_all

lemma mem_redis_lrem_other: "k' \<noteq> k \<Longrightarrow> k' \<in> set (redis_lrem c k xs) \<longleftrightarrow> k' \<in> set xs"
proof -
  assume "k' \<noteq> k"
  then have "k' \<in> set (redis_lrem c k xs) \<longleftrightarrow> k' \<in> set (filter (\<lambda>y. y \<noteq> k) (redis_lrem c k xs))"
    and "k' \<in> set xs \<longleftrightarrow> k' \<in> set (filter (\<lambda>y. y \<noteq> k) xs)" by auto
  then show ?thesis by (simp only: redis_lrem_others)
qed

lemma index_cmd_index:
  "index_cmd u k c \<Longrightarrow> (v, k') \<noteq> (u, k) \<Longrightarrow>
   k' \<in> set (uid2rids (apply_cmd c s) v) \<longleftrightarrow> k' \<in> set (uid2rids s v)"
  by (cases c) (auto simp: mem_redis_lrem_other)

lemma store_inv_index_ok: "store_inv s \<Longrightarrow> index_ok_except s u k"
  by (simp add: index_ok_except_def store_invD(4))

lemma store_inv_rooms_ok: "store_inv s \<Longrightarrow> rooms_ok s"
  by (simp add: rooms_ok_def store_invD(1,2))

text \<open>A store whose rooms are those of one consistent store and whose index is that
  of another, the two indexes differing at most in \<open>(u, k)\<close>, is consistent but
  possibly for \<open>(u, k)\<close>.\<close>

lemma mixed_index_ok:
  assumes ir: "store_inv sr" and ii: "store_inv si"
    and rx: "rooms x = rooms sr" and ix: "uid2rids x = uid2rids si"
    and agree: "\<And>v k'. (v, k') \<noteq> (u, k) \<Longrightarrow> k' \<in> set (uid2rids sr v) \<longleftrightarrow> k' \<in> set (uid2rids si v)"
  shows "index_ok_except x u k"
  unfolding index_ok_except_def
proof (intro allI impI)
  fix v k' assume vk: "(v, k') \<noteq> (u, k)"
  have "k' \<in> set (uid2rids x v) \<longleftrightarrow> k' \<in> set (uid2rids sr v)" using agree [OF vk] by (simp add: ix)
  also have "\<dots> \<longleftrightarrow> (\<exists>r. rooms sr k' = Some r \<and> v \<in> set (memberIds r))" by (rule store_invD(4) [OF ir])
  finally show "k' \<in> set (uid2rids x v) \<longleftrightarrow> (\<exists>r. rooms x k' = Some r \<and> v \<in> set (memberIds r))"
    by (simp add: rx)
qed

lemma crash_prefix:
  assumes i0: "store_inv s0" and i1: "store_inv (exec cs s0)" and sh: "pipeline_shape u k cs"
  shows "index_ok_except (exec (take n cs) s0) u k \<and> rooms_ok (exec (take n cs) s0)"
proof -
  have whole: "?thesis" if "take n cs = [] \<or> take n cs = cs"
    using that i0 i1 by (auto intro: store_inv_index_ok store_inv_rooms_ok)
  show ?thesis
  proof (cases "n = 0 \<or> length cs \<le> n")
    case True then show ?thesis by (intro whole) auto
  next
    case False
    then have n: "0 < n" "n < length cs" by auto
    have two: "(\<exists>c1 c2. cs = [c1, c2] \<and> room_cmd c1 \<and> index_cmd u k c2) \<or>
               (\<exists>c1 c2. cs = [c2, c1] \<and> room_cmd c1 \<and> index_cmd u k c2)"
      using sh n by (auto simp: pipeline_shape_def)
    then have "length cs = 2" by auto
    with n have n1: "n = Suc 0" by simp
    from two consider
        (room_first) c1 c2 where "cs = [c1, c2]" "room_cmd c1" "index_cmd u k c2" "take n cs = [c1]"
      | (index_first) c1 c2 where "cs = [c2, c1]" "room_cmd c1" "index_cmd u k c2" "take n cs = [c2]"
      using n1 by auto
    then show ?thesis
    proof cases
      case room_first
      let ?x = "apply_cmd c1 s0"
      have rx: "rooms ?x = rooms (exec cs s0)" using room_first by (simp add: index_cmd_rooms)
      have ix: "uid2rids ?x = uid2rids s0" using room_first by (simp add: room_cmd_index)
      have agree: "k' \<in> set (uid2rids (exec cs s0) v) \<longleftrightarrow> k' \<in> set (uid2rids s0 v)"
        if "(v, k') \<noteq> (u, k)" for v k'
        using index_cmd_index [OF room_first(3) that, of ?x] room_first by (simp add: room_cmd_index)
      have "index_ok_except ?x u k" by (rule mixed_index_ok [OF i1 i0 rx ix agree])
      moreover have "rooms_ok ?x" using store_inv_rooms_ok [OF i1] rx by (simp add: rooms_ok_def)
      ultimately show ?thesis using room_first by simp
    next
      case index_first
      let ?x = "apply_cmd c2 s0"
      have rx: "rooms ?x = rooms s0" using index_first by (simp add: index_cmd_rooms)
      have ix: "uid2rids ?x = uid2rids (exec cs s0)" using index_first by (simp add: room_cmd_index)
      have agree: "k' \<in> set (uid2rids s0 v) \<longleftrightarrow> k' \<in> set (uid2rids (exec cs s0) v)"
        if "(v, k') \<noteq> (u, k)" for v k'
        using index_cmd_index [OF index_first(3) that, of s0] index_first by (simp add: room_cmd_index)
      have "index_ok_except ?x u k" by (rule mixed_index_ok [OF i0 i1 rx ix agree])
      moreover have "rooms_ok ?x" using store_inv_rooms_ok [OF i0] rx by (simp add: rooms_ok_def)
      ultimately show ?thesis using index_first by simp
    qed
  qed
qed

subsection \<open>The pipeline of each call\<close>

lemma plan_cmds_Some: "plan_cmds p = Some cs \<longleftrightarrow> (\<exists>a. p = Inr (a, cs))"
  by (auto simp: plan_cmds_def split: sum.splits)

lemma store_of_commit: "p = Inr (a, cs) \<Longrightarrow> store_of (commit p s) = Inr (exec cs s)"
  by (simp add: store_of_def)

lemma respondInvitation_pipeline_exec:
  "respondInvitation allow g acc k s = Inr (res, s') \<Longrightarrow>
   \<exists>s0 cs. respondInvitation_pipeline allow g acc k s = Some (s0, cs) \<and> s' = exec cs s0"
  by (auto simp: respondInvitation_def respondInvitation_pipeline_def Let_def
      split: sum.splits if_splits prod.splits)

lemma respondInvitation_pipeline_step:
  "respondInvitation_pipeline allow g acc k s = Some (s0, cs) \<Longrightarrow>
   \<exists>res. respondInvitation allow g acc k s = Inr (res, exec cs s0)"
  by (auto simp: respondInvitation_def respondInvitation_pipeline_def Let_def
      split: sum.splits if_splits prod.splits)

lemma pipeline_step:
  "pipeline allow t a s = Some (s0, cs) \<Longrightarrow> step allow t a s = Inr (exec cs s0)"
proof (cases a)
  case (RespondInvitation g acc k)
  assume "pipeline allow t a s = Some (s0, cs)"
  with RespondInvitation obtain res where "respondInvitation allow g acc k s = Inr (res, exec cs s0)"
    using respondInvitation_pipeline_step by fastforce
  with RespondInvitation show ?thesis by (simp add: store_of_def)
next
  case (LeaveAll u)
  assume "pipeline allow t a s = Some (s0, cs)"
  with LeaveAll show ?thesis by (auto simp: leaveMany_def split_def Let_def)
qed (auto simp: plan_cmds_Some book_def join_def leave_def kick_def transferOwnership_def invite_def
       store_of_def)

lemma step_pipeline:
  "step allow t a s = Inr s' \<Longrightarrow> \<exists>s0 cs. pipeline allow t a s = Some (s0, cs) \<and> s' = exec cs s0"
proof (cases a)
  case (RespondInvitation g acc k)
  assume "step allow t a s = Inr s'"
  with RespondInvitation obtain res where "respondInvitation allow g acc k s = Inr (res, s')"
    by (auto simp: store_of_def split: sum.splits)
  with RespondInvitation show ?thesis by (auto dest: respondInvitation_pipeline_exec)
next
  case (LeaveAll u)
  assume "step allow t a s = Inr s'"
  with LeaveAll show ?thesis by (auto simp: leaveMany_def split_def Let_def)
qed (auto simp: plan_cmds_def book_def join_def leave_def kick_def transferOwnership_def invite_def
       store_of_def commit_def split: sum.splits)

subsection \<open>The shapes of the pipelines\<close>

lemma shape_room_index:
  "room_cmd c1 \<Longrightarrow> index_cmd u k c2 \<Longrightarrow> pipeline_shape u k [c1, c2]"
  by (auto simp: pipeline_shape_def)

lemma shape_index_room:
  "room_cmd c1 \<Longrightarrow> index_cmd u k c2 \<Longrightarrow> pipeline_shape u k [c2, c1]"
  unfolding pipeline_shape_def by blast

lemma shape_single: "room_cmd c \<Longrightarrow> pipeline_shape u k [c]"
  by (auto simp: pipeline_shape_def)

lemma shape_set_lpush: "pipeline_shape u k [SET k' r, LPUSH u k]"
  by (rule shape_room_index) simp_all

lemma shape_set_lrem: "c \<noteq> 0 \<Longrightarrow> pipeline_shape u k [SET k' r, LREM u c k]"
  by (rule shape_room_index) simp_all

lemma shape_lpush_set: "pipeline_shape u k [LPUSH u k, SET k' r]"
  by (rule shape_index_room) simp_all

lemma leave_cmds_shape: "pipeline_shape u (room_id r) (snd (leave_cmds u r))"
  by (simp add: leave_cmds_def Let_def shape_room_index)

lemma book_plan_shape: "book_plan allow u p t s = Inr (r, cs) \<Longrightarrow> pipeline_shape u (room_id r) cs"
  by (auto simp: book_plan_def Let_def shape_room_index split: if_splits)

lemma join_plan_shape: "join_plan allow u k s = Inr (r, cs) \<Longrightarrow> pipeline_shape u (room_id r) cs"
  by (auto simp: join_plan_def get_def Let_def shape_room_index split: if_splits option.splits)

lemma leave_plan_shape: "leave_plan u k s = Inr (r, cs) \<Longrightarrow> \<exists>k'. pipeline_shape u k' cs"
  using leave_cmds_shape [of u]
  by (auto simp: leave_plan_def get_def split: if_splits option.splits) (metis snd_conv)

lemma kick_plan_shape: "kick_plan kr m k s = Inr (x, cs) \<Longrightarrow> \<exists>k'. pipeline_shape m k' cs"
  using leave_plan_shape [of m k s]
  by (auto simp: kick_plan_def get_def Let_def split: if_splits option.splits sum.splits)
    (metis shape_set_lrem one_neq_zero)

lemma transferOwnership_plan_shape: "transferOwnership_plan ow c k s = Inr (x, cs) \<Longrightarrow> pipeline_shape u k' cs"
  by (auto simp: transferOwnership_plan_def get_def Let_def shape_single split: if_splits option.splits sum.splits)

lemma invite_plan_shape: "invite_plan i g k s = Inr (x, cs) \<Longrightarrow> pipeline_shape u k' cs"
  by (auto simp: invite_plan_def Let_def shape_single split: if_splits option.splits)

lemma respondInvitation_pipeline_shape:
  "respondInvitation_pipeline allow g acc k s = Some (s0, cs) \<Longrightarrow> \<exists>k'. pipeline_shape g k' cs"
  by (auto simp: respondInvitation_pipeline_def get_def Let_def shape_single
      split: if_splits option.splits) (blast intro: shape_lpush_set)+

lemma leaveMany_plan_shape:
  assumes inv: "store_inv s" and sr: "single_room s"
  shows "\<exists>k. pipeline_shape u k (snd (leaveMany_plan u [] s))"
proof (cases "uid2rids s u")
  case Nil then show ?thesis by (auto simp: leaveMany_plan_def pipeline_shape_def)
next
  case (Cons k2 ks)
  obtain r2 where ks: "ks = []" and r2: "rooms s k2 = Some r2"
    using single_room_index_Cons [OF inv sr Cons] by blast
  have "snd (leaveMany_plan u [] s) = snd (leave_cmds u (drop_member u r2))"
    using Cons ks r2 by (simp add: leaveMany_plan_def split_def Let_def)
  with leave_cmds_shape show ?thesis by metis
qed

lemma pipeline_start_inv:
  assumes p: "pipeline False t a s = Some (s0, cs)" and inv: "store_inv s"
  shows "store_inv s0"
proof (cases a)
  case (RespondInvitation g acc k)
  show ?thesis
  proof (cases "acc \<and> isMemberOfAny s g")
    case True
    then have "s0 = snd (leaveMany g [] s)"
      using p RespondInvitation
      by (auto simp: respondInvitation_pipeline_def get_def Let_def split: if_splits option.splits)
    with leaveMany_all [OF inv, of g "fst (leaveMany g [] s)" s0] show ?thesis by simp
  next
    case False
    then have "s0 = s"
      using p RespondInvitation
      by (auto simp: respondInvitation_pipeline_def get_def Let_def split: if_splits option.splits)
    with inv show ?thesis by simp
  qed
qed (use p inv in \<open>auto simp: plan_cmds_Some\<close>)

lemma pipeline_shape_ok:
  assumes p: "pipeline False t a s = Some (s0, cs)" and inv: "store_inv s" and sr: "single_room s"
  shows "\<exists>u k. pipeline_shape u k cs"
proof (cases a)
  case (Book u q)
  with p obtain r where "book_plan False u q t s = Inr (r, cs)" by (auto simp: plan_cmds_Some)
  then show ?thesis by (blast dest: book_plan_shape)
next
  case (Join u k)
  with p obtain r where "join_plan False u k s = Inr (r, cs)" by (auto simp: plan_cmds_Some)
  then show ?thesis by (blast dest: join_plan_shape)
next
  case (Leave u k)
  with p obtain r where "leave_plan u k s = Inr (r, cs)" by (auto simp: plan_cmds_Some)
  then show ?thesis by (blast dest: leave_plan_shape)
next
  case (LeaveAll u)
  with p leaveMany_plan_shape [OF inv sr, of u] show ?thesis by auto
next
  case (Kick kr m k)
  with p obtain x where "kick_plan kr m k s = Inr (x, cs)" by (auto simp: plan_cmds_Some)
  then show ?thesis by (blast dest: kick_plan_shape)
next
  case (TransferOwnership ow c k)
  with p obtain x where "transferOwnership_plan ow c k s = Inr (x, cs)" by (auto simp: plan_cmds_Some)
  then show ?thesis by (blast dest: transferOwnership_plan_shape)
next
  case (Invite i g k)
  with p obtain x where "invite_plan i g k s = Inr (x, cs)" by (auto simp: plan_cmds_Some)
  then show ?thesis by (blast dest: invite_plan_shape)
next
  case (RespondInvitation g acc k)
  with p have "respondInvitation_pipeline False g acc k s = Some (s0, cs)" by simp
  then show ?thesis by (blast dest: respondInvitation_pipeline_shape)
qed

text \<open>C30. A pipeline is not a transaction: the coordinator sends each call's commands
  to the store one by one, and a failure of the store after any prefix of them leaves
  that prefix applied. In every store the coordinator reaches, each successful call is
  the run of its pipeline, and whatever prefix of the pipeline is applied, every stored
  room is still well formed under its key and the reverse index is wrong about at most
  one (user, room) pair.\<close>

theorem store_failure_one_inconsistency:
  assumes reach: "reachable False s t" and p: "pipeline False t a s = Some (s0, cs)"
  shows "step False t a s = Inr (exec cs s0) \<and>
         (\<forall>n. \<exists>u k. index_ok_except (exec (take n cs) s0) u k \<and> rooms_ok (exec (take n cs) s0))"
proof -
  have si: "sys_inv False s t" by (rule reachable_sys_inv [OF reach])
  then have inv: "store_inv s" and sr: "single_room s" by (simp_all add: sys_inv_def)
  have st: "step False t a s = Inr (exec cs s0)" by (rule pipeline_step [OF p])
  have "store_inv (exec cs s0)"
    using step_sys_inv [OF si st] by (simp add: sys_inv_def)
  moreover have "store_inv s0" by (rule pipeline_start_inv [OF p inv])
  moreover obtain u k where "pipeline_shape u k cs" using pipeline_shape_ok [OF p inv sr] by blast
  ultimately show ?thesis using st crash_prefix by blast
qed

text \<open>User 2 joins the public room ''0'' of user 1 and the store fails after the room is
  written and before the reverse index is: user 2 is then a member of the room while
  the index lists no room for user 2, the one pair the theorem allows.\<close>

theorem store_failure_one_inconsistency_witness:
  "pipeline False 1 (Join 2 ''0'') store0 = Some (store0, [SET ''0'' room1, LPUSH 2 ''0'']) \<and>
   step False 1 (Join 2 ''0'') store0 = Inr (exec [SET ''0'' room1, LPUSH 2 ''0''] store0) \<and>
   index_ok_except (exec [SET ''0'' room1] store0) 2 ''0'' \<and>
   rooms_ok (exec [SET ''0'' room1] store0) \<and>
   \<not> store_inv (exec [SET ''0'' room1] store0)"
proof -
  have p: "pipeline False 1 (Join 2 ''0'') store0 = Some (store0, [SET ''0'' room1, LPUSH 2 ''0''])"
    by (simp add: plan_cmds_def join_plan_def get_def isMemberOfAny_def store0_def room0_def
      room1_def empty_store_def join_room_def Let_def js_splice1_def)
  have "\<exists>u k. index_ok_except (exec (take 1 [SET ''0'' room1, LPUSH 2 ''0'']) store0) u k \<and>
      rooms_ok (exec (take 1 [SET ''0'' room1, LPUSH 2 ''0'']) store0)"
    using store_failure_one_inconsistency [OF store0_reachable p] by blast
  then obtain u k where
    ok: "index_ok_except (exec [SET ''0'' room1] store0) u k" "rooms_ok (exec [SET ''0'' room1] store0)"
    by auto
  have "(2, ''0'') = (u, k)"
  proof (rule ccontr)
    assume "(2, ''0'') \<noteq> (u, k)"
    with ok(1) have "''0'' \<in> set (uid2rids (exec [SET ''0'' room1] store0) 2) \<longleftrightarrow>
        (\<exists>r. rooms (exec [SET ''0'' room1] store0) ''0'' = Some r \<and> 2 \<in> set (memberIds r))"
      unfolding index_ok_except_def by blast
    then show False by (simp add: store0_def room1_def empty_store_def)
  qed
  moreover have "\<not> store_inv (exec [SET ''0'' room1] store0)"
  proof
    assume "store_inv (exec [SET ''0'' room1] store0)"
    from store_invD(4) [OF this, of "''0''" 2] show False
      by (simp add: store0_def room1_def empty_store_def)
  qed
  ultimately show ?thesis
    using p ok store_failure_one_inconsistency [OF store0_reachable p] by auto
qed

end
