(* ===== verification/JoinHandler.thy ===== *)
theory JoinHandler
  imports RoomHandlers
begin

text \<open>
  \<open>TextChatGateway.handleJoinRoom\<close> and the call \<open>join(payload.roomId,
  client.userId)\<close> it makes. \<open>RoomService.join\<close> declares \<open>join(joinerId,
  roomId)\<close>, so the room id of the payload arrives as the joiner and the client's
  user id as the room id. With a string room id the service pushes that string into
  \<open>memberIds\<close>: the record it writes back is not a room of the typed model, and
  the outcome \<open>JoinUntyped r v\<close> names it by the typed part \<open>r\<close> and the pushed
  value \<open>v\<close>. Everything else the call and the handler do (the guards, the keys
  read, the event and its JSON payload) is modelled as for the other handlers. As
  for those, the payload parameter lacks \<open>@MessageBody()\<close>, so through NestJS
  the body is never reached (Dispatch).
\<close>

subsection \<open>Keys built from JavaScript values\<close>

text \<open>The user whose list \<open>`UId2RIds:${k}`\<close> is: the integer whose
  \<open>String\<close> is \<open>k\<close>. Every other suffix names a key no call writes, whose
  \<open>llen\<close> is 0.\<close>

definition key_uid :: "string \<Rightarrow> uid option" where
  "key_uid k =
     (let i = (case k of
                 [] \<Rightarrow> 0
               | c # ds \<Rightarrow> if c = CHR ''-'' then - int (decimal_value ds) else int (decimal_value k))
      in if js_String_int i = k then Some i else None)"

text \<open>\<open>isMemberOfAny(memberId)\<close> (lines 20-26), \<open>llen\<close> of the key built from
  a value of any type.\<close>

definition isMemberOfAny_js :: "store \<Rightarrow> jsval \<Rightarrow> bool" where
  "isMemberOfAny_js s v = (case key_uid (js_key v) of Some u \<Rightarrow> isMemberOfAny s u | None \<Rightarrow> False)"

text \<open>What \<open>join\<close> returns: the typed result, or the room it wrote back with a
  non-number \<open>v\<close> appended to \<open>memberIds\<close> (the typed part \<open>r\<close> carries the
  other fields), having pushed \<open>room.id\<close> onto \<open>`UId2RIds:${v}`\<close>.\<close>

datatype join_js_out = JoinTyped room store | JoinUntyped room jsval

text \<open>\<open>join(joinerId, roomId)\<close> (lines 113-140) at JavaScript values: with a
  number as joiner it is the typed \<open>join\<close>; otherwise \<open>indexOf(joinerId)\<close> in
  the numeric \<open>waitingIds\<close> is -1 both times, so both \<open>splice\<close> calls drop the
  last element.\<close>

definition join_js :: "bool \<Rightarrow> jsval \<Rightarrow> jsval \<Rightarrow> store \<Rightarrow> error + join_js_out" where
  "join_js allow joinerId roomId s =
     (case joinerId of
        JSNum u \<Rightarrow>
          (case join allow u (js_key roomId) s of Inl e \<Rightarrow> Inl e | Inr (r, s') \<Rightarrow> Inr (JoinTyped r s'))
      | _ \<Rightarrow>
          if \<not> allow \<and> isMemberOfAny_js s joinerId then Inl LeaveBeforeJoin
          else case get s (js_key roomId) of
            Inl e \<Rightarrow> Inl e
          | Inr r \<Rightarrow>
              if \<not> isPublic r then Inl RoomPrivate
              else Inr (JoinUntyped (r\<lparr>waitingIds := js_splice1 (waitingIds r) (-1),
                                       refusedIds := js_splice1 (refusedIds r) (-1)\<rparr>) joinerId))"

subsection \<open>The handler\<close>

fun json_of_jsval :: "jsval \<Rightarrow> json" where
  "json_of_jsval (JSNum i) = JNum i"
| "json_of_jsval (JSStr s) = JStr s"
| "json_of_jsval (JSBool b) = JBool b"

text \<open>The room a join result describes and the \<open>memberIds\<close> array the event
  carries.\<close>

fun joined_room :: "join_js_out \<Rightarrow> room \<times> json list" where
  "joined_room (JoinTyped r s') = (r, map JNum (memberIds r))"
| "joined_room (JoinUntyped r v) = (r, map JNum (memberIds r) @ [json_of_jsval v])"

text \<open>Lines 179-196: \<open>join(payload.roomId, client.userId)\<close>, \<open>client.join(room.id)\<close>
  and \<open>ReceiveRoomChanges\<close> to \<open>server.to(room.id)\<close>.\<close>

definition handleJoinRoom ::
  "bool \<Rightarrow> sid \<Rightarrow> uid \<Rightarrow> jsval \<Rightarrow> store \<Rightarrow> error + (join_js_out \<times> sock_op list \<times> (room_target \<times> gw_event) list)" where
  "handleJoinRoom allow client userId roomId s =
     (case join_js allow roomId (JSNum userId) s of
        Inl e \<Rightarrow> Inl e
      | Inr out \<Rightarrow>
          (let (r, mems) = joined_room out
           in Inr (out, [SockJoin client (Some (room_id r))],
                   [(ToRoom (Some (room_id r)),
                     RoomChanges JoinEv userId
                       [(''id'', JStr (room_id r)), (''memberIds'', JArr mems),
                        (''waitingIds'', JArr (map JNum (waitingIds r))),
                        (''refusedIds'', JArr (map JNum (refusedIds r)))])])))"

subsection \<open>Keys\<close>

lemma js_String_nat_hd_digit: "js_String_nat n \<noteq> [] \<and> hd (js_String_nat n) \<noteq> CHR ''-''"
  using js_String_nat_roundtrip [of n] by (cases "js_String_nat n") auto

lemma key_uid_js_String_int: "key_uid (js_String_int i) = Some i"
proof (cases "i < 0")
  case True
  then show ?thesis
    by (simp add: key_uid_def js_String_int_def decimal_value_js_String_nat)
next
  case False
  obtain c ds where cd: "js_String_nat (nat i) = c # ds" and "c \<noteq> CHR ''-''"
    using js_String_nat_hd_digit [of "nat i"] by (cases "js_String_nat (nat i)") auto
  with False show ?thesis
    by (simp add: key_uid_def js_String_int_def decimal_value_js_String_nat [of "nat i", unfolded cd])
qed

lemma key_uid_Some: "key_uid k = Some i \<Longrightarrow> k = js_String_int i"
  by (auto simp: key_uid_def Let_def split: if_splits)

lemma isMemberOfAny_js_num: "isMemberOfAny_js s (JSNum u) = isMemberOfAny s u"
  by (simp add: isMemberOfAny_js_def key_uid_js_String_int)

end
