(* ===== verification/RedisAdapter.thy ===== *)
theory RedisAdapter
  imports Session
begin

text \<open>
  \<open>RedisIoAdapter\<close> (src/adapter/redis.adapter.ts) and the cross-process fan-out
  it installs. \<open>connectToRedis\<close> builds a publisher client from
  \<open>CacheConfig\<close> and a subscriber as its duplicate, awaits both connections and
  only then stores \<open>createAdapter(pubClient, subClient)\<close> in
  \<open>adapterConstructor\<close>; \<open>createIOServer\<close> creates the socket.io server and
  passes it whatever \<open>adapterConstructor\<close> holds. The \<open>await\<close> splits
  \<open>connectToRedis\<close> into two atomic segments, so the adapter object is a state
  with the connections in flight (\<open>pending\<close>), and a run is any interleaving of
  starts, settlements and server creations. A cluster is a list of processes, each
  with its server, its sockets and its socket.io rooms; a broadcast from one process
  reaches the local sockets of every process its adapter publishes to.
\<close>

subsection \<open>Clients, adapters and servers\<close>

record cache_config =
  cache_url :: string
  cache_password :: string

record redis_client =
  client_url :: string
  client_password :: string

text \<open>Lines 11-14: \<open>createClient({url, password})\<close>; line 15: \<open>duplicate()\<close> makes a
  new client with the same options.\<close>

definition createClient :: "cache_config \<Rightarrow> redis_client" where
  "createClient cfg = \<lparr>client_url = cache_url cfg, client_password = cache_password cfg\<rparr>"

definition duplicate :: "redis_client \<Rightarrow> redis_client" where
  "duplicate c = \<lparr>client_url = client_url c, client_password = client_password c\<rparr>"

text \<open>socket.io adapter constructors: the in-memory default of a new server, and
  \<open>createAdapter(pub, sub)\<close> of the Redis adapter.\<close>

datatype adapter_ctor = InMemoryAdapter | RedisAdapterCtor redis_client redis_client

record io_server =
  srv_port :: nat
  srv_adapter :: adapter_ctor

text \<open>A rejected connection, and the \<open>TypeError\<close> socket.io raises when
  \<open>server.adapter(undefined)\<close> re-creates the adapter of its main namespace with
  \<open>new undefined(nsp)\<close>.\<close>

datatype adapter_error = ConnectionRefused | NotAConstructor

text \<open>The fields of a \<open>RedisIoAdapter\<close> (line 8), \<open>None\<close> for \<open>undefined\<close>,
  and the clients of the \<open>connectToRedis\<close> calls waiting at line 17.\<close>

record io_adapter =
  adapterConstructor :: "adapter_ctor option"
  pending :: "(redis_client \<times> redis_client) list"

definition init_adapter :: io_adapter where
  "init_adapter = \<lparr>adapterConstructor = None, pending = []\<rparr>"

text \<open>Lines 10-17 up to the \<open>await\<close>: create the two clients and start connecting.\<close>

definition connectToRedis_start :: "cache_config \<Rightarrow> io_adapter \<Rightarrow> io_adapter" where
  "connectToRedis_start cfg a =
     (let pubClient = createClient cfg;
          subClient = duplicate pubClient
      in a\<lparr>pending := pending a @ [(pubClient, subClient)]\<rparr>)"

text \<open>Lines 17-19 after the \<open>await\<close> of the \<open>i\<close>-th waiting call:
  \<open>Promise.all\<close> resolves when both connections succeed, and then the adapter is
  stored; otherwise it rejects and the call throws before line 19.\<close>

definition connectToRedis_settle ::
  "nat \<Rightarrow> bool \<Rightarrow> bool \<Rightarrow> io_adapter \<Rightarrow> io_adapter \<times> (adapter_error + unit)" where
  "connectToRedis_settle i pubOk subOk a =
     (let (pubClient, subClient) = pending a ! i;
          a' = a\<lparr>pending := take i (pending a) @ drop (Suc i) (pending a)\<rparr>
      in if pubOk \<and> subOk
         then (a'\<lparr>adapterConstructor := Some (RedisAdapterCtor pubClient subClient)\<rparr>, Inr ())
         else (a', Inl ConnectionRefused))"

definition super_createIOServer :: "nat \<Rightarrow> io_server" where
  "super_createIOServer port = \<lparr>srv_port = port, srv_adapter = InMemoryAdapter\<rparr>"

definition server_adapter :: "adapter_ctor option \<Rightarrow> io_server \<Rightarrow> adapter_error + io_server" where
  "server_adapter v server =
     (case v of None \<Rightarrow> Inl NotAConstructor | Some c \<Rightarrow> Inr (server\<lparr>srv_adapter := c\<rparr>))"

text \<open>Lines 22-27.\<close>

definition createIOServer :: "io_adapter \<Rightarrow> nat \<Rightarrow> adapter_error + io_server" where
  "createIOServer a port =
     (let server = super_createIOServer port
      in server_adapter (adapterConstructor a) server)"

subsection \<open>Runs of the adapter\<close>

datatype adapter_call = ConnectToRedis | ConnectSettled nat bool bool | CreateIOServer nat

datatype adapter_out = ConnectDone "adapter_error + unit" | ServerCreated "adapter_error + io_server"

fun adapter_step :: "cache_config \<Rightarrow> adapter_call \<Rightarrow> io_adapter \<Rightarrow> io_adapter \<times> adapter_out list" where
  "adapter_step cfg ConnectToRedis a = (connectToRedis_start cfg a, [])"
| "adapter_step cfg (ConnectSettled i p q) a =
     (if i < length (pending a)
      then (let (a', r) = connectToRedis_settle i p q a in (a', [ConnectDone r]))
      else (a, []))"
| "adapter_step cfg (CreateIOServer port) a = (a, [ServerCreated (createIOServer a port)])"

fun run_adapter :: "cache_config \<Rightarrow> adapter_call list \<Rightarrow> io_adapter \<Rightarrow> io_adapter \<times> adapter_out list" where
  "run_adapter cfg [] a = (a, [])"
| "run_adapter cfg (c # cs) a =
     (let (a1, o1) = adapter_step cfg c a;
          (a2, o2) = run_adapter cfg cs a1
      in (a2, o1 @ o2))"

text \<open>The adapter every successful \<open>connectToRedis\<close> builds from \<open>cfg\<close>.\<close>

definition cfg_adapter :: "cache_config \<Rightarrow> adapter_ctor" where
  "cfg_adapter cfg = RedisAdapterCtor (createClient cfg) (duplicate (createClient cfg))"

definition adapter_wf :: "cache_config \<Rightarrow> io_adapter \<Rightarrow> bool" where
  "adapter_wf cfg a \<longleftrightarrow>
     (\<forall>p \<in> set (pending a). p = (createClient cfg, duplicate (createClient cfg))) \<and>
     (adapterConstructor a = None \<or> adapterConstructor a = Some (cfg_adapter cfg))"

subsection \<open>A cluster of processes\<close>

text \<open>One server process: its socket.io server, the sockets connected to it and
  its socket.io rooms.\<close>

record node =
  node_server :: io_server
  node_socks :: "sid list"
  node_rooms :: "rid \<Rightarrow> sid list"

text \<open>The Redis adapter of the sender publishes on the server of its publisher
  client, and a process receives what arrives on the server of its subscriber
  client; the in-memory adapter publishes nowhere.\<close>

fun same_bus :: "adapter_ctor \<Rightarrow> adapter_ctor \<Rightarrow> bool" where
  "same_bus (RedisAdapterCtor pub _) (RedisAdapterCtor _ sub) = (client_url pub = client_url sub)"
| "same_bus _ _ = False"

definition hears :: "node list \<Rightarrow> nat \<Rightarrow> nat \<Rightarrow> bool" where
  "hears cl i j \<longleftrightarrow>
     i = j \<or> same_bus (srv_adapter (node_server (cl ! i))) (srv_adapter (node_server (cl ! j)))"

text \<open>The sockets of one process a target reaches there.\<close>

fun local_recipients :: "node \<Rightarrow> dest \<Rightarrow> sid list" where
  "local_recipients nd (Sock c) = filter (\<lambda>x. x = c) (node_socks nd)"
| "local_recipients nd (Socks cs) = filter (\<lambda>x. x \<in> set cs) (node_socks nd)"
| "local_recipients nd (RoomExcept k c) = filter (\<lambda>x. x \<noteq> c) (node_rooms nd k)"

text \<open>An emission of process \<open>i\<close>: \<open>socket.emit\<close> stays on the socket's process;
  a broadcast (\<open>server.to(...)\<close>, \<open>socket.to(...)\<close>) is delivered by every process
  that hears \<open>i\<close>.\<close>

definition deliver :: "node list \<Rightarrow> nat \<Rightarrow> dest \<Rightarrow> sid list" where
  "deliver cl i d =
     (case d of
        Sock c \<Rightarrow> local_recipients (cl ! i) d
      | _ \<Rightarrow> concat (map (\<lambda>j. local_recipients (cl ! j) d) (filter (hears cl i) [0..<length cl])))"

text \<open>The single server the gateway model of Session assumes: every socket and every
  room of the cluster on one process.\<close>

definition merged_rooms :: "node list \<Rightarrow> rid \<Rightarrow> sid list" where
  "merged_rooms cl k = concat (map (\<lambda>nd. node_rooms nd k) cl)"

definition connected :: "node list \<Rightarrow> sid list" where
  "connected cl = concat (map node_socks cl)"

text \<open>A two-process deployment used by the examples: both processes run
  \<open>connectToRedis\<close> and then \<open>createIOServer(81)\<close> against the same cache.\<close>

definition demo_cfg :: cache_config where
  "demo_cfg = \<lparr>cache_url = ''redis://cache:6379'', cache_password = ''secret''\<rparr>"

definition demo_server :: io_server where
  "demo_server = \<lparr>srv_port = 81, srv_adapter = cfg_adapter demo_cfg\<rparr>"

definition demo_cluster :: "node list" where
  "demo_cluster =
     [\<lparr>node_server = demo_server, node_socks = [''a''], node_rooms = (\<lambda>k. [])(''0'' := [''a''])\<rparr>,
      \<lparr>node_server = demo_server, node_socks = [''b'', ''c''], node_rooms = (\<lambda>k. [])(''0'' := [''b''])\<rparr>]"

subsection \<open>Runs\<close>

lemma run_adapter_append:
  "run_adapter cfg (cs @ ds) a =
     (let (a1, o1) = run_adapter cfg cs a; (a2, o2) = run_adapter cfg ds a1 in (a2, o1 @ o2))"
  by (induction cs arbitrary: a) (auto simp: Let_def split: prod.splits)

lemma adapter_wf_init: "adapter_wf cfg init_adapter"
  by (simp add: adapter_wf_def init_adapter_def)

lemma set_take_drop_Suc: "set (take i xs @ drop (Suc i) xs) \<subseteq> set xs"
  by (auto dest: in_set_takeD in_set_dropD)

lemma adapter_step_wf:
  assumes wf: "adapter_wf cfg a" and st: "adapter_step cfg c a = (a', os)"
  shows "adapter_wf cfg a' \<and>
         (adapterConstructor a' \<noteq> None \<longleftrightarrow> adapterConstructor a \<noteq> None \<or> ConnectDone (Inr ()) \<in> set os)"
proof (cases c)
  case ConnectToRedis
  with wf st show ?thesis
    by (auto simp: adapter_wf_def connectToRedis_start_def Let_def)
next
  case (ConnectSettled i p q)
  show ?thesis
  proof (cases "i < length (pending a)")
    case True
    then have pi: "pending a ! i = (createClient cfg, duplicate (createClient cfg))"
      using wf nth_mem by (auto simp: adapter_wf_def)
    define rest where "rest = take i (pending a) @ drop (Suc i) (pending a)"
    have rest: "\<forall>x \<in> set rest. x = (createClient cfg, duplicate (createClient cfg))"
      using wf set_take_drop_Suc [of i "pending a"] by (auto simp: adapter_wf_def rest_def)
    have "(a', os) =
        (if p \<and> q then (a\<lparr>pending := rest, adapterConstructor := Some (cfg_adapter cfg)\<rparr>, [ConnectDone (Inr ())])
         else (a\<lparr>pending := rest\<rparr>, [ConnectDone (Inl ConnectionRefused)]))"
      using st True pi ConnectSettled by (auto simp: connectToRedis_settle_def cfg_adapter_def rest_def Let_def)
    with rest wf show ?thesis by (cases "p \<and> q") (auto simp: adapter_wf_def)
  next
    case False
    with wf st ConnectSettled show ?thesis by auto
  qed
next
  case (CreateIOServer port)
  with wf st show ?thesis by auto
qed

lemma run_adapter_wf:
  "adapter_wf cfg a \<Longrightarrow> run_adapter cfg cs a = (a', os) \<Longrightarrow>
   adapter_wf cfg a' \<and>
   (adapterConstructor a' \<noteq> None \<longleftrightarrow> adapterConstructor a \<noteq> None \<or> ConnectDone (Inr ()) \<in> set os)"
proof (induction cs arbitrary: a os)
  case Nil then show ?case by simp
next
  case (Cons c cs)
  obtain a1 o1 where s1: "adapter_step cfg c a = (a1, o1)" by fastforce
  obtain a2 o2 where r2: "run_adapter cfg cs a1 = (a2, o2)" by fastforce
  have "a' = a2" and os: "os = o1 @ o2" using Cons.prems(2) s1 r2 by auto
  with adapter_step_wf [OF Cons.prems(1) s1] Cons.IH [of a1 o2] r2 show ?case by auto
qed

lemma createIOServer_wf:
  "adapter_wf cfg a \<Longrightarrow>
   createIOServer a port =
     (if adapterConstructor a = None then Inl NotAConstructor
      else Inr \<lparr>srv_port = port, srv_adapter = cfg_adapter cfg\<rparr>)"
  by (auto simp: adapter_wf_def createIOServer_def server_adapter_def super_createIOServer_def)

lemma run_adapter_servers:
  "adapter_wf cfg a \<Longrightarrow> run_adapter cfg cs a = (a', os) \<Longrightarrow> ServerCreated (Inr srv) \<in> set os \<Longrightarrow>
   srv_adapter srv = cfg_adapter cfg"
proof (induction cs arbitrary: a a' os)
  case Nil then show ?case by simp
next
  case (Cons c cs)
  obtain a1 o1 where s1: "adapter_step cfg c a = (a1, o1)" by fastforce
  obtain a2 o2 where r2: "run_adapter cfg cs a1 = (a2, o2)" by fastforce
  have os: "os = o1 @ o2" using Cons.prems(2) s1 r2 by auto
  have wf1: "adapter_wf cfg a1" using adapter_step_wf [OF Cons.prems(1) s1] by blast
  show ?case
  proof (cases "ServerCreated (Inr srv) \<in> set o1")
    case True
    then obtain port where "c = CreateIOServer port" "createIOServer a port = Inr srv"
      using s1 by (cases c) (auto simp: Let_def split: if_splits prod.splits)
    with createIOServer_wf [OF Cons.prems(1)] show ?thesis by (auto split: if_splits)
  next
    case False
    with os Cons.prems(3) Cons.IH [OF wf1 r2] show ?thesis by auto
  qed
qed

lemma same_bus_cfg: "same_bus (cfg_adapter cfg) (cfg_adapter cfg)"
  by (simp add: cfg_adapter_def duplicate_def)

lemma map_nth_upt: "map (\<lambda>j. f (xs ! j)) [0..<length xs] = map f xs"
proof -
  have "map (\<lambda>j. f (xs ! j)) [0..<length xs] = map f (map ((!) xs) [0..<length xs])" by simp
  then show ?thesis by (simp only: map_nth)
qed

lemma filter_eq_single: "distinct xs \<Longrightarrow> i \<in> set xs \<Longrightarrow> filter (\<lambda>j. j = i) xs = [i]"
  by (induction xs) (auto simp: filter_empty_conv)

text \<open>A process whose server kept the in-memory adapter (a plain \<open>IoAdapter\<close>)
  delivers its broadcasts to its own sockets only.\<close>

lemma in_memory_local_only:
  assumes "i < length cl" and "srv_adapter (node_server (cl ! i)) = InMemoryAdapter"
  shows "deliver cl i d = local_recipients (cl ! i) d"
proof -
  have "filter (hears cl i) [0..<length cl] = [i]"
  proof -
    have "filter (hears cl i) [0..<length cl] = filter (\<lambda>j. j = i) [0..<length cl]"
      using assms(2) by (intro filter_cong) (auto simp: hears_def)
    also have "\<dots> = [i]" using assms(1) by (simp add: filter_eq_single)
    finally show ?thesis .
  qed
  then show ?thesis by (cases d) (simp_all add: deliver_def)
qed

text \<open>C27. \<open>createIOServer\<close> succeeds only after \<open>connectToRedis\<close> has resolved:
  for every interleaving of \<open>connectToRedis\<close> calls, their settlements and server
  creations, a server created after a call that resolved uses the Redis adapter over
  a publisher built from \<open>CacheConfig\<close> and its duplicate, and a server created
  before any call resolved fails, because \<open>server.adapter(undefined)\<close> throws.\<close>

theorem createIOServer_needs_connect:
  assumes run: "run_adapter cfg (pre @ [CreateIOServer port]) init_adapter = (a, outs)"
  shows "(last outs = ServerCreated (Inr \<lparr>srv_port = port,
            srv_adapter = RedisAdapterCtor (createClient cfg) (duplicate (createClient cfg))\<rparr>) \<and>
          ConnectDone (Inr ()) \<in> set (butlast outs)) \<or>
         (last outs = ServerCreated (Inl NotAConstructor) \<and> ConnectDone (Inr ()) \<notin> set (butlast outs))"
proof -
  obtain a1 o1 where r1: "run_adapter cfg pre init_adapter = (a1, o1)" by fastforce
  have outs: "outs = o1 @ [ServerCreated (createIOServer a1 port)]"
    using run r1 by (auto simp: run_adapter_append Let_def)
  have wf1: "adapter_wf cfg a1"
    and set1: "adapterConstructor a1 \<noteq> None \<longleftrightarrow> ConnectDone (Inr ()) \<in> set o1"
    using run_adapter_wf [OF adapter_wf_init r1] by (auto simp: init_adapter_def)
  show ?thesis
    using createIOServer_wf [OF wf1, of port] set1 outs by (auto simp: cfg_adapter_def)
qed

text \<open>One process starts \<open>connectToRedis\<close>, creates a server at once (which
  throws), lets both connections succeed and creates a server again, which gets the
  Redis adapter.\<close>

theorem createIOServer_needs_connect_witness:
  "run_adapter demo_cfg [ConnectToRedis, CreateIOServer 80, ConnectSettled 0 True True, CreateIOServer 81]
     init_adapter =
     (\<lparr>adapterConstructor = Some (cfg_adapter demo_cfg), pending = []\<rparr>,
      [ServerCreated (Inl NotAConstructor), ConnectDone (Inr ()), ServerCreated (Inr demo_server)]) \<and>
   run_adapter demo_cfg [ConnectToRedis, CreateIOServer 80] init_adapter =
     (\<lparr>adapterConstructor = None, pending = [(createClient demo_cfg, duplicate (createClient demo_cfg))]\<rparr>,
      [ServerCreated (Inl NotAConstructor)])"
proof -
  have r1: "run_adapter demo_cfg ([ConnectToRedis, CreateIOServer 80, ConnectSettled 0 True True] @ [CreateIOServer 81])
     init_adapter =
     (\<lparr>adapterConstructor = Some (cfg_adapter demo_cfg), pending = []\<rparr>,
      [ServerCreated (Inl NotAConstructor), ConnectDone (Inr ()), ServerCreated (Inr demo_server)])"
    by (simp add: init_adapter_def connectToRedis_start_def connectToRedis_settle_def createIOServer_def
        server_adapter_def super_createIOServer_def demo_server_def cfg_adapter_def Let_def)
  have r2: "run_adapter demo_cfg ([ConnectToRedis] @ [CreateIOServer 80]) init_adapter =
     (\<lparr>adapterConstructor = None, pending = [(createClient demo_cfg, duplicate (createClient demo_cfg))]\<rparr>,
      [ServerCreated (Inl NotAConstructor)])"
    by (simp add: init_adapter_def connectToRedis_start_def createIOServer_def server_adapter_def
        super_createIOServer_def Let_def)
  from createIOServer_needs_connect [OF r1] createIOServer_needs_connect [OF r2] r1 r2
  show ?thesis
    by (simp add: init_adapter_def connectToRedis_start_def connectToRedis_settle_def createIOServer_def
        server_adapter_def super_createIOServer_def demo_server_def cfg_adapter_def Let_def)
qed

lemma created_servers_hear:
  assumes nodes: "\<forall>nd \<in> set cl. \<exists>cs a outs. run_adapter cfg cs init_adapter = (a, outs) \<and>
                                      ServerCreated (Inr (node_server nd)) \<in> set outs"
    and i: "i < length cl"
  shows "filter (hears cl i) [0..<length cl] = [0..<length cl]"
proof -
  have "\<forall>nd \<in> set cl. srv_adapter (node_server nd) = cfg_adapter cfg"
    using nodes run_adapter_servers [OF adapter_wf_init] by blast
  then have "\<forall>j < length cl. hears cl i j"
    using i nth_mem same_bus_cfg by (auto simp: hears_def)
  then show ?thesis by (simp add: filter_id_conv)
qed

lemma deliver_all:
  assumes "filter (hears cl i) [0..<length cl] = [0..<length cl]" and "\<forall>c. d \<noteq> Sock c"
  shows "deliver cl i d = concat (map (\<lambda>nd. local_recipients nd d) cl)"
proof -
  have "deliver cl i d = concat (map (\<lambda>j. local_recipients (cl ! j) d) [0..<length cl])"
    using assms by (cases d) (simp_all add: deliver_def)
  with map_nth_upt [of "\<lambda>nd. local_recipients nd d" cl] show ?thesis by simp
qed

text \<open>C31. Run on a cluster, the gateway's emissions reach exactly the sockets the
  single-server model of Session says they reach. If every process's server is one
  that \<open>createIOServer\<close> returned after \<open>connectToRedis\<close> with the shared
  \<open>CacheConfig\<close>, then a broadcast from any process (to sockets by id, or to a room
  but the sender) reaches the connected sockets that \<open>recipients\<close> computes over
  the union of all processes' rooms, and an emission on a socket reaches that
  socket.\<close>

theorem cluster_delivers_as_one_server:
  assumes nodes: "\<forall>nd \<in> set cl. \<exists>cs a outs. run_adapter cfg cs init_adapter = (a, outs) \<and>
                                      ServerCreated (Inr (node_server nd)) \<in> set outs"
    and wf: "\<forall>nd \<in> set cl. \<forall>k. set (node_rooms nd k) \<subseteq> set (node_socks nd)"
    and i: "i < length cl"
    and own: "\<forall>c. d = Sock c \<longrightarrow> c \<in> set (node_socks (cl ! i))"
  shows "set (deliver cl i d) = set (recipients (merged_rooms cl) d) \<inter> set (connected cl)"
proof (cases d)
  case (Sock c)
  have "c \<in> set (connected cl)" using own Sock i nth_mem by (fastforce simp: connected_def)
  with own Sock show ?thesis by (auto simp: deliver_def)
next
  case (Socks cs)
  with deliver_all [OF created_servers_hear [OF nodes i]] show ?thesis
    by (auto simp: connected_def)
next
  case (RoomExcept k c)
  with deliver_all [OF created_servers_hear [OF nodes i]] wf show ?thesis
    by (fastforce simp: connected_def merged_rooms_def)
qed

text \<open>In the two-process deployment, a group message sent from socket ''a'' of
  the first process to room ''0'' reaches socket ''b'' on the second process, as on
  one server.\<close>

theorem cluster_delivers_as_one_server_witness:
  "deliver demo_cluster 0 (RoomExcept ''0'' ''a'') = [''b''] \<and>
   recipients (merged_rooms demo_cluster) (RoomExcept ''0'' ''a'') = [''b''] \<and>
   set (deliver demo_cluster 0 (RoomExcept ''0'' ''a'')) =
     set (recipients (merged_rooms demo_cluster) (RoomExcept ''0'' ''a'')) \<inter> set (connected demo_cluster)"
proof -
  have run: "run_adapter demo_cfg [ConnectToRedis, ConnectSettled 0 True True, CreateIOServer 81] init_adapter =
      (\<lparr>adapterConstructor = Some (cfg_adapter demo_cfg), pending = []\<rparr>, [ConnectDone (Inr ()), ServerCreated (Inr demo_server)])"
    by (simp add: init_adapter_def connectToRedis_start_def connectToRedis_settle_def createIOServer_def
        server_adapter_def super_createIOServer_def demo_server_def cfg_adapter_def Let_def)
  have nodes: "\<forall>nd \<in> set demo_cluster. \<exists>cs a outs. run_adapter demo_cfg cs init_adapter = (a, outs) \<and>
                                      ServerCreated (Inr (node_server nd)) \<in> set outs"
  proof -
    have "\<exists>cs a outs. run_adapter demo_cfg cs init_adapter = (a, outs) \<and>
             ServerCreated (Inr demo_server) \<in> set outs"
      by (intro exI conjI, rule run, simp)
    then show ?thesis unfolding demo_cluster_def by (simp del: run_adapter.simps)
  qed
  have wf: "\<forall>nd \<in> set demo_cluster. \<forall>k. set (node_rooms nd k) \<subseteq> set (node_socks nd)"
    by (auto simp: demo_cluster_def)
  have eq: "set (deliver demo_cluster 0 (RoomExcept ''0'' ''a'')) =
     set (recipients (merged_rooms demo_cluster) (RoomExcept ''0'' ''a'')) \<inter> set (connected demo_cluster)"
    by (rule cluster_delivers_as_one_server [OF nodes wf]) (simp_all add: demo_cluster_def)
  have "hears demo_cluster 0 1"
    by (simp add: hears_def demo_cluster_def demo_server_def cfg_adapter_def createClient_def duplicate_def)
  then have "deliver demo_cluster 0 (RoomExcept ''0'' ''a'') = [''b'']"
    by (simp add: deliver_def demo_cluster_def upt_rec hears_def)
  with eq show ?thesis by (simp add: merged_rooms_def demo_cluster_def)
qed

end
