(* ===== verification/Dispatch.thy ===== *)
theory Dispatch
  imports JoinHandler
begin

text \<open>
  How \<open>TextChatGateway\<close> receives its messages. NestJS calls a
  \<open>@SubscribeMessage\<close> handler with one argument per parameter, each taken from the
  parameter's decorator: \<open>@ConnectedSocket()\<close> gives the client socket,
  \<open>@MessageBody()\<close> the message data, and a parameter with no decorator is left
  \<open>undefined\<close>. Only \<open>sendPrivateMessage\<close> decorates its payload (line 129);
  \<open>handleJoinRoom\<close>, \<open>handleLeaveRoom\<close>, \<open>handleKickOutOfRoom\<close>,
  \<open>handleSendGroupMessage\<close>, \<open>handleTransferOwnership\<close>,
  \<open>handleInviteToRoom\<close> and \<open>handleRespondInvitation\<close> (lines 182, 212, 243, 278,
  305, 336, 371) do not, so their first read \<open>payload.roomId\<close> throws a
  \<open>TypeError\<close> before RoomService is called. \<open>dispatch\<close> is the table from
  listen events to handlers with these decorators; \<open>gw_reachable\<close> the states of the
  store and the user services that any sequence of connections, disconnections and
  messages from any users produces.
\<close>

subsection \<open>Parameters and handlers\<close>

datatype payload_param = Undecorated | MessageBody

text \<open>The argument NestJS passes for a payload parameter: the message data under
  \<open>@MessageBody()\<close>, \<open>undefined\<close> (\<open>None\<close>) otherwise.\<close>

fun nest_payload :: "payload_param \<Rightarrow> 'p \<Rightarrow> 'p option" where
  "nest_payload MessageBody body = Some body"
| "nest_payload Undecorated body = None"

text \<open>\<open>TypeError: Cannot read properties of undefined (reading 'f')\<close>.\<close>

datatype thrown = TypeErrorReading string

datatype 'a nest_outcome = Throws thrown | Returns 'a

text \<open>A handler whose first use of its payload reads the field \<open>field\<close>.\<close>

definition with_payload :: "payload_param \<Rightarrow> 'p \<Rightarrow> string \<Rightarrow> ('p \<Rightarrow> 'a) \<Rightarrow> 'a nest_outcome" where
  "with_payload d body field f =
     (case nest_payload d body of None \<Rightarrow> Throws (TypeErrorReading field) | Some p \<Rightarrow> Returns (f p))"

text \<open>The listen events and the fields of their message data.\<close>

datatype listen_msg =
    MsgSendPrivateMessage private_payload
  | MsgCreateRoom
  | MsgJoinRoom jsval
  | MsgLeaveRoom jsval
  | MsgKickOutOfRoom jsval jsval
  | MsgSendGroupMessage group_payload
  | MsgTransferOwnership jsval jsval
  | MsgInviteToRoom jsval jsval
  | MsgRespondInvitation jsval jsval

datatype 'us gw_result =
    SessionResult "ws_error + 'us session"
  | CreateResult "error + ((rid \<times> room_changes) \<times> store)"
  | JoinResult "error + (join_js_out \<times> sock_op list \<times> (room_target \<times> gw_event) list)"
  | RoomResult "error + handler_out"

text \<open>The \<open>@SubscribeMessage\<close> handlers of lines 115-393 with the decorator of each
  payload parameter and the field each reads first (\<open>payload.receiverId\<close> at line
  132, \<open>payload.roomId\<close> at lines 184, 214, 246, 280, 308, 339, 374).
  \<open>client.userId\<close> is the user the session layer bound to the socket, and
  \<open>now\<close> the \<open>Date.now()\<close> of a booking.\<close>

fun dispatch ::
  "bool \<Rightarrow> nat \<Rightarrow> 'us services \<Rightarrow> sid \<Rightarrow> uid \<Rightarrow> listen_msg \<Rightarrow> store \<Rightarrow> 'us session \<Rightarrow> 'us gw_result nest_outcome" where
  "dispatch allow now svc client userId (MsgSendPrivateMessage p) st ss =
     with_payload MessageBody p ''receiverId'' (\<lambda>p. SessionResult (sendPrivateMessage svc userId p ss))"
| "dispatch allow now svc client userId MsgCreateRoom st ss =
     Returns (CreateResult (handleCreateRoom allow now userId st))"
| "dispatch allow now svc client userId (MsgJoinRoom roomId) st ss =
     with_payload Undecorated roomId ''roomId''
       (\<lambda>roomId. JoinResult (handleJoinRoom allow client userId roomId st))"
| "dispatch allow now svc client userId (MsgLeaveRoom roomId) st ss =
     with_payload Undecorated roomId ''roomId''
       (\<lambda>roomId. RoomResult (handleLeaveRoom client userId roomId st))"
| "dispatch allow now svc client userId (MsgKickOutOfRoom roomId memberId) st ss =
     with_payload Undecorated (roomId, memberId) ''roomId''
       (\<lambda>(roomId, memberId). RoomResult (handleKickOutOfRoom client userId roomId memberId st))"
| "dispatch allow now svc client userId (MsgSendGroupMessage p) st ss =
     with_payload Undecorated p ''roomId''
       (\<lambda>p. SessionResult (handleSendGroupMessage st client userId p ss))"
| "dispatch allow now svc client userId (MsgTransferOwnership roomId candidateId) st ss =
     with_payload Undecorated (roomId, candidateId) ''roomId''
       (\<lambda>(roomId, candidateId). RoomResult (handleTransferOwnership client userId roomId candidateId st))"
| "dispatch allow now svc client userId (MsgInviteToRoom roomId guestId) st ss =
     with_payload Undecorated (roomId, guestId) ''roomId''
       (\<lambda>(roomId, guestId). RoomResult (handleInviteToRoom client userId roomId guestId st))"
| "dispatch allow now svc client userId (MsgRespondInvitation roomId isAccpeted) st ss =
     with_payload Undecorated (roomId, isAccpeted) ''roomId''
       (\<lambda>(roomId, isAccpeted). RoomResult (handleRespondInvitation allow client userId roomId isAccpeted st))"

text \<open>The states of the store and of the user services the gateway produces: any
  connection or disconnection, any change of the socket table by the session layer,
  and any message from any user whose handler returns; a thrown error changes
  nothing. A join whose joiner is not a number has no store of the typed model
  (\<open>JoinUntyped\<close>) and has no rule.\<close>

inductive gw_reachable :: "bool \<Rightarrow> 'us services \<Rightarrow> store \<times> 'us session \<Rightarrow> bool" for allow svc where
  init: "gw_reachable allow svc (empty_store sids, ss)"
| connect: "gw_reachable allow svc (st, ss) \<Longrightarrow> gw_reachable allow svc (st, handleConnection svc c ss)"
| disconnect: "gw_reachable allow svc (st, ss) \<Longrightarrow> gw_reachable allow svc (st, handleDisconnect svc c ss)"
| sockets: "gw_reachable allow svc (st, ss) \<Longrightarrow> gw_reachable allow svc (st\<lparr>uid2sid := sids\<rparr>, ss)"
| session: "gw_reachable allow svc (st, ss) \<Longrightarrow>
    dispatch allow now svc c u m st ss = Returns (SessionResult (Inr ss')) \<Longrightarrow>
    gw_reachable allow svc (st, ss')"
| create: "gw_reachable allow svc (st, ss) \<Longrightarrow>
    dispatch allow now svc c u m st ss = Returns (CreateResult (Inr (x, st'))) \<Longrightarrow>
    gw_reachable allow svc (st', ss)"
| room: "gw_reachable allow svc (st, ss) \<Longrightarrow>
    dispatch allow now svc c u m st ss = Returns (RoomResult (Inr (st', out))) \<Longrightarrow>
    gw_reachable allow svc (st', ss)"
| join: "gw_reachable allow svc (st, ss) \<Longrightarrow>
    dispatch allow now svc c u m st ss = Returns (JoinResult (Inr (JoinTyped r st', out))) \<Longrightarrow>
    gw_reachable allow svc (st', ss)"

text \<open>A room the create-room handler writes: private, with the creator as its only
  member and owner.\<close>

definition created_room :: "room \<Rightarrow> bool" where
  "created_room r \<longleftrightarrow>
     \<not> isPublic r \<and> memberIds r = [ownerId r] \<and> waitingIds r = [] \<and> refusedIds r = []"

subsection \<open>Which handlers run\<close>

text \<open>Only the private-message and create-room handlers return; every handler with
  an undecorated payload throws when it reads \<open>payload.roomId\<close>.\<close>

lemma dispatch_Returns:
  assumes "dispatch allow now svc c u m st ss = Returns res"
  shows "(\<exists>p. m = MsgSendPrivateMessage p \<and> res = SessionResult (sendPrivateMessage svc u p ss)) \<or>
         (m = MsgCreateRoom \<and> res = CreateResult (handleCreateRoom allow now u st))"
  using assms by (cases m) (auto simp: with_payload_def)

lemma dispatch_Throws:
  "m \<noteq> MsgCreateRoom \<Longrightarrow> (\<forall>p. m \<noteq> MsgSendPrivateMessage p) \<Longrightarrow>
   dispatch allow now svc c u m st ss = Throws (TypeErrorReading ''roomId'')"
  by (cases m) (auto simp: with_payload_def)

lemma create_keeps_created:
  assumes all: "\<forall>k r. rooms st k = Some r \<longrightarrow> created_room r"
    and ok: "handleCreateRoom allow now u st = Inr (x, st')"
  shows "\<forall>k r. rooms st' k = Some r \<longrightarrow> created_room r"
proof -
  obtain k0 ev where x: "x = (k0, ev)" by (cases x)
  with ok obtain r0 where "book allow u False now st = Inr (r0, st')"
    by (auto simp: handleCreateRoom_Inr)
  then have "rooms st' = (rooms st)(js_String_nat now \<mapsto> r0)" and "created_room r0"
    by (auto simp: book_Inr created_room_def)
  with all show ?thesis by auto
qed

lemma gw_reachable_created:
  "gw_reachable allow svc x \<Longrightarrow> \<forall>k r. rooms (fst x) k = Some r \<longrightarrow> created_room r"
proof (induction rule: gw_reachable.induct)
  case (init sids ss) then show ?case by (simp add: empty_store_def)
next
  case (create st ss now c u m x st')
  have h: "handleCreateRoom allow now u st = Inr (x, st')"
    using dispatch_Returns [OF create.hyps(2)] by auto
  from create.IH have "\<forall>k r. rooms st k = Some r \<longrightarrow> created_room r" by simp
  from create_keeps_created [OF this h] show ?case by simp
next
  case (room st ss now c u m st' out)
  with dispatch_Returns [OF room.hyps(2)] show ?case by auto
next
  case (join st ss now c u m r st' out)
  with dispatch_Returns [OF join.hyps(2)] show ?case by auto
qed auto

text \<open>C12. Through the gateway, the only RoomService call that ever runs is the
  \<open>book\<close> of the create-room handler: every other room handler throws on its
  undecorated payload before calling the service. So whatever users connect,
  disconnect and send, with either policy, every room in the store is one the
  create-room handler wrote: private, its creator its only member and owner, nobody
  invited or refused. No user ever joins, leaves, is invited to or is kicked from a
  room.\<close>

theorem gateway_rooms_stay_created:
  assumes reach: "gw_reachable allow svc (st, ss)" and r: "rooms st k = Some r"
  shows "\<not> isPublic r \<and> memberIds r = [ownerId r] \<and> waitingIds r = [] \<and> refusedIds r = []"
  using gw_reachable_created [OF reach] r by (auto simp: created_room_def)

text \<open>User 1 creates a room at time 0 through the gateway: room ''0'' is private
  with member 1 only.\<close>

theorem gateway_rooms_stay_created_witness:
  "gw_reachable False demo_svc
     (exec [SET ''0'' \<lparr>room_id = ''0'', isPublic = False, ownerId = 1, memberIds = [1],
                       waitingIds = [], refusedIds = []\<rparr>, LPUSH 1 ''0''] (empty_store sids0), demo0) \<and>
   \<not> isPublic \<lparr>room_id = ''0'', isPublic = False, ownerId = 1, memberIds = [1],
                waitingIds = [], refusedIds = []\<rparr> \<and>
   dispatch False 0 demo_svc ''c'' 1 (MsgJoinRoom (JSStr ''0'')) (empty_store sids0) demo0 =
     Throws (TypeErrorReading ''roomId'')"
proof -
  let ?r = "\<lparr>room_id = ''0'', isPublic = False, ownerId = 1, memberIds = [1],
             waitingIds = [], refusedIds = []\<rparr>"
  let ?st = "exec [SET ''0'' ?r, LPUSH 1 ''0''] (empty_store sids0)"
  have d: "dispatch False 0 demo_svc ''c'' 1 MsgCreateRoom (empty_store sids0) demo0 =
      Returns (CreateResult (Inr ((''0'', \<lparr>event = Create, actorId = 1, changed_room = ''0''\<rparr>), ?st)))"
    by (simp add: handleCreateRoom_def book_def book_plan_def isMemberOfAny_def empty_store_def
        js_String_nat.simps digit_char_def Let_def commit_def)
  have reach: "gw_reachable False demo_svc (?st, demo0)"
    by (rule gw_reachable.create [OF gw_reachable.init d])
  have "rooms ?st ''0'' = Some ?r" by simp
  from gateway_rooms_stay_created [OF reach this] reach show ?thesis
    by (simp add: with_payload_def)
qed

end
