(* ===== verification/Spec2Isabelle.thy ===== *)
theory Spec2Isabelle
  imports Concurrency Abstraction Gateway MultiRoom Json Session RoomHandlers StatusMachine StoreFailure JoinHandler RedisAdapter Dispatch
begin

text \<open>
  \<^bold>\<open>A verification library for the room coordinator of the communication server.\<close>

  \<^emph>\<open>The program.\<close> The server (NestJS, TypeScript) keeps chat rooms in Redis so that
  several stateless processes can serve them. \<open>TextChatGateway\<close>
  (src/src/module/chat/text-chat.gateway.ts) receives socket.io events and calls one
  method of \<open>RoomService\<close> (src/src/module/chat/service/room.service.ts) per
  event; \<open>RoomService\<close> reads a room, checks the rules (ownership, membership,
  invitations, the single-room policy \<open>AppConfig.allowJoinMultipleRooms\<close>), and
  writes the room and the reverse index \<open>UId2RIds:<uid>\<close> back with one Redis
  pipeline. \<open>RedisIoAdapter\<close> (src/src/adapter/redis.adapter.ts) wires the
  socket.io Redis adapter, through which a broadcast of one server process reaches
  the sockets of the others.

  \<^emph>\<open>The theories.\<close>
  \<^item> Prelude: identifier types (\<open>uid = int\<close>, \<open>rid = string\<close>), theorem
    collections, list lemmas on \<open>remove1\<close> and \<open>butlast\<close>.
  \<^item> JsRuntime: \<open>Array.prototype.indexOf\<close> and \<open>splice(i, 1)\<close> with their
    out-of-range behaviour (\<open>js_indexOf\<close>, \<open>js_splice1\<close>), \<open>String(n)\<close>
    of \<open>Date.now()\<close> (\<open>js_String_nat\<close>) and its injectivity, by a round trip
    through the decimal value.
  \<^item> Room: the \<open>Room\<close> record and the \<open>WsException\<close> messages as the datatype
    \<open>error\<close>.
  \<^item> Json: \<open>JSON.stringify\<close> (\<open>json_print\<close>) and \<open>JSON.parse\<close>
    (\<open>json_parse\<close>, a recursive-descent parser whose fuel is twice the input length)
    on the JSON values a room is made of, the room object (\<open>room_to_json\<close>) and
    the reading of its fields (\<open>room_of_json\<close>).
  \<^item> Store: the Redis key spaces as the record \<open>store\<close> (rooms, reverse index,
    socket ids), the pipeline commands \<open>cmd\<close> (\<open>SET\<close>, \<open>DEL\<close>,
    \<open>LPUSH\<close>, \<open>LREM\<close> with Redis's count semantics), \<open>exec\<close> of a pipeline
    and \<open>commit\<close> of a planned result.
  \<^item> RoomService: one definition per method, in source order: \<open>isMemberOfAny\<close>,
    \<open>book\<close>, \<open>get\<close>, \<open>getMany\<close>, \<open>join\<close>, \<open>leave\<close>,
    \<open>leaveMany\<close>, \<open>kick\<close>, \<open>transferOwnership\<close>, \<open>invite\<close>,
    \<open>respondInvitation\<close>. A writing method \<open>X\<close> is \<open>commit\<close> of
    \<open>X_plan\<close>, which reads the store and returns the result and the pipeline. The
    in-memory edits of a room are \<open>join_room\<close>, \<open>drop_member\<close>,
    \<open>leave_cmds\<close>, \<open>invite_room\<close>. Each method has an outcome lemma
    (\<open>join_Inr\<close>, \<open>leave_Inr\<close>, ...) stating when it succeeds and what it writes.
  \<^item> Invariant: \<open>room_wf\<close> (owner is a member, no duplicate members or invitees,
    members and invitees disjoint), \<open>store_inv\<close> (every stored room is well formed
    and stored under its own id, and the reverse index lists exactly the rooms a user
    is in, each once) and \<open>single_room\<close>; lemmas on the single-room updates of the
    store (same members, one member added, one removed, room deleted, room created)
    and one preservation lemma per method.
  \<^item> Coordinator: the calls as the datatype \<open>op\<close>, \<open>step\<close> running one,
    and the inductive \<open>reachable\<close>: from an empty store, successful calls, clock
    ticks, and changes of the socket table by the session layer. Every call takes one
    clock tick; that is the environment's promise that two calls never see the same
    \<open>Date.now()\<close>, and under it \<open>book\<close>'s ids are proved fresh
    (\<open>keys_before\<close>).
  \<^item> Behaviour: fixtures (\<open>store0\<close>: user 1 has booked the public room "0";
    \<open>store1\<close>: user 2 has joined it; \<open>store2\<close>: user 3 has booked the private
    room "1") and the functional properties of spec section 8, including the defects
    of the \<open>indexOf\<close>/\<open>splice\<close> idiom the model exposes.
  \<^item> Concurrency: two handlers whose reads both happen before either pipeline
    (\<open>run_interleaved\<close>), and the same-millisecond booking.
  \<^item> Abstraction: the abstract specification of membership (\<open>members_of\<close>,
    \<open>abs_step\<close>) and the refinement of it by the coordinator; \<open>leave_spec\<close>,
    the spec's \<open>leave\<close> (section 4.2) written directly on the store, against
    which \<open>leave\<close> and \<open>leaveMany\<close> are checked.
  \<^item> Gateway: \<open>TextChatGateway.handleCreateRoom\<close>, its call of \<open>book\<close>
    and the event it emits.
  \<^item> Session: the gateway's session handlers \<open>handleConnection\<close>,
    \<open>handleDisconnect\<close>, \<open>sendPrivateMessage\<close> and
    \<open>handleSendGroupMessage\<close>. The services they call (\<open>ConnectionService\<close>,
    \<open>UserService\<close>, \<open>MessageService\<close>, not among the sources) are the
    interface record \<open>services\<close> over an abstract state, so every lemma holds for
    every implementation; socket.io is an outbox of events with their targets
    (\<open>dest\<close>) and \<open>recipients\<close> says which sockets a target reaches.
    \<open>demo_svc\<close> is one small implementation, used by the witnesses.
  \<^item> Dispatch: how NestJS calls the gateway's \<open>@SubscribeMessage\<close> handlers.
    \<open>nest_payload\<close> gives a parameter its argument (\<open>@MessageBody()\<close> the
    message data; no decorator, \<open>undefined\<close>); \<open>with_payload\<close> reads a field
    of it, a \<open>TypeError\<close> on \<open>undefined\<close>; \<open>dispatch\<close> maps each listen
    event (\<open>listen_msg\<close>) to its handler with the decorators of the source; and
    the inductive \<open>gw_reachable\<close> collects the stores and service states of any
    sequence of connections, disconnections and messages.
  \<^item> RoomHandlers: the room handlers \<open>handleLeaveRoom\<close>,
    \<open>handleKickOutOfRoom\<close>, \<open>handleTransferOwnership\<close>,
    \<open>handleInviteToRoom\<close>, \<open>handleRespondInvitation\<close>. They pass the
    payload's room id first to service methods that take it last, so the payload
    fields are JavaScript values (\<open>jsval\<close>), and each method is taken at such
    values (\<open>leave_js\<close>, \<open>kick_js\<close>, ...): the typed model when the types
    match, JavaScript's strict comparisons otherwise. Also \<open>reachable_keys\<close>: under
    either policy a reachable store keeps rooms only under decimal keys of past clock
    values.
  \<^item> StatusMachine: the state machine of spec section 4 for one user and one room
    (\<open>status\<close>: no room, absent, waiting, member, refused), the spec's moves
    (\<open>spec_move\<close>) and the code's (\<open>code_move\<close>, two moves more), and one lemma
    per call saying how the users it names (\<open>subjects\<close>) move.
  \<^item> MultiRoom: the coordinator with \<open>allowJoinMultipleRooms\<close> on, where members
    may be duplicated: the counting invariant \<open>store_inv_multi\<close> (the index lists a
    room at most as often as the user occurs in it), the final store of
    \<open>leaveMany\<close> when the index repeats a room, and its preservation by every call.
  \<^item> JoinHandler: \<open>handleJoinRoom\<close> and the call
    \<open>join(payload.roomId, client.userId)\<close> at JavaScript values
    (\<open>join_js\<close>): \<open>isMemberOfAny\<close> on the key built from any value
    (\<open>key_uid\<close> reads the user a key suffix names), and the outcome
    \<open>JoinUntyped\<close> when a non-number is pushed into \<open>memberIds\<close>.
  \<^item> StoreFailure: store failures in the middle of a call (spec section 7,
    \<open>StoreUnavailable\<close>). \<open>pipeline\<close> gives the last ioredis pipeline of each
    successful call and the store it starts from (for \<open>respondInvitation\<close>, the
    store after its \<open>leaveMany\<close>); a pipeline is not a transaction, so a failure
    after \<open>n\<close> commands leaves \<open>exec (take n cs)\<close> applied.
    \<open>pipeline_step\<close> and \<open>step_pipeline\<close> show that the successful steps are
    exactly the runs of these pipelines.
  \<^item> RedisAdapter: \<open>RedisIoAdapter\<close>. \<open>connectToRedis\<close> is split at its
    \<open>await\<close> into \<open>connectToRedis_start\<close> (the publisher from
    \<open>CacheConfig\<close> and its \<open>duplicate\<close>) and \<open>connectToRedis_settle\<close>
    (both connections succeed and the adapter is stored, or the call rejects);
    \<open>createIOServer\<close> passes \<open>adapterConstructor\<close> to
    \<open>server.adapter\<close>; \<open>run_adapter\<close> runs any interleaving of these. A cluster
    is a list of processes (\<open>node\<close>), and \<open>deliver\<close> is the fan-out of an
    emission of one process through its adapter.
  \<^item> Spec2Isabelle (this theory): the invariant of the reachable states, the form
    of room keys under both policies, and the liveness of leaving and booking.

  \<^emph>\<open>What is proved.\<close>
  \<^item> Invariant (C1): with the single-room policy on, every reachable store satisfies
    the invariants I1-I4 of the spec and the policy itself.
  \<^item> Functional behaviour (C2-C10): book then get; join adds the joiner once; a
    repeated join duplicates the member when the policy is off; leave of the last
    member deletes the room; the owner's leave hands ownership to the first remaining
    member; kick by a non-owner is rejected; invite then decline or accept; the
    owner's kick of a member splices the member out, records the member refused and
    returns the member's socket id.
  \<^item> Presence leak (C11): \<open>invite\<close> checks that the guest is online before it
    checks that the inviter is a member, so any user learns whether another is online.
  \<^item> Gateway system (C12): through NestJS's dispatch only \<open>handleCreateRoom\<close>
    reaches RoomService, so every room of every store the gateway reaches is a private
    room whose only member is its owner, with no invitee and nobody refused.
  \<^item> Defects (C4, C13-C16): what the \<open>splice\<close> at index -1 does in join,
    invite and leaveMany.
  \<^item> Concurrency (C17, C18, C23, C28): two concurrent joins lose one joiner; a
    booking in the millisecond of an existing room overwrites it (both break the
    invariant); a join racing the last member's leave leaves the joiner's index
    naming a deleted room, which locks the joiner out under the single-room policy;
    the last two members leaving together leave a stored room whose member's index
    no longer names it.
  \<^item> Refinement (C19): every successful call refines \<open>abs_step\<close>.
  \<^item> Round trips (C20, C25): book then leave restores the store; a transfer of
    ownership and the transfer back restore it.
  \<^item> Gateway (C21): rooms created through the gateway are private, so join rejects
    them.
  \<^item> Invariant with the policy off (C22): owner a member, no member waiting, no
    dangling index entry, in every reachable state.
  \<^item> Liveness (C24, this theory): run one at a time, the calls never lock a user
    out: leaving all rooms and booking anew always succeeds.
  \<^item> Equivalence with the spec (C26): on a consistent store \<open>leave\<close> is
    \<open>leave_spec\<close>, and \<open>leaveMany\<close> of that one room, whose loop repeats
    leave's code, gives the same room and store.
  \<^item> Adapter start-up (C27): whatever the interleaving of \<open>connectToRedis\<close>
    calls, their settlements and server creations, \<open>createIOServer\<close> succeeds
    exactly when a \<open>connectToRedis\<close> resolved before it, and then installs the Redis
    adapter over the configured client and its duplicate.
  \<^item> Session handlers (C29, C32): after a connection only the connecting socket
    hears the new status, and no online friend does; a private message between
    friends is persisted before it is delivered, to the receiver's sockets only.
  \<^item> Store failures (C30): in a reachable store of the single-room coordinator a
    failure after any prefix of a call's pipeline leaves every stored room well
    formed and the reverse index wrong about at most one (user, room) pair; the
    witness is a join cut off between the room write and the index push.
  \<^item> Cluster (C31): with every process's server created after a successful
    \<open>connectToRedis\<close> on the shared configuration, each emission of the gateway
    reaches exactly the connected sockets that the single-server \<open>recipients\<close> of
    Session computes over the union of all rooms, so the Session claims hold for a
    deployment of several processes.
  \<^item> Type (C33, this theory): under either policy every room key of a reachable
    store is the decimal string of a past clock value and names its own room.
  \<^item> State machine (C34): every call moves the users it names along the spec's
    machine, except that a room vanishes when its last member leaves and a user who
    left may join a public room again without a new invitation; a member of a room
    that stays stored only ever becomes refused.
  \<^item> Supporting results: \<open>splice(indexOf(x), 1)\<close> is \<open>remove1\<close> when
    \<open>x\<close> is present and drops the last element otherwise
    (\<open>splice_at_indexOf\<close>); parsing the printed JSON of a room gives the room
    back (\<open>room_json_roundtrip\<close>) and the parser's fuel never makes reading a room
    fail (\<open>room_read_fuel_adequate\<close>), which together justify a store of room
    records.

  \<^emph>\<open>Assumptions and bounds.\<close> No fuel is needed for the service: every loop
  (\<open>getMany\<close>, the room loop of \<open>leaveMany\<close>) runs over a finite list and
  is structural recursion. The JSON parser takes \<open>2 * length cs + 1\<close> as fuel:
  each call that does not consume a character is followed by one that does, and a
  nesting level costs two units, so \<open>parse_value\<close> never needs more than twice
  the length of its input (\<open>parse_value_fuel_stable\<close>), and a result found with
  less fuel is kept under more (\<open>parse_value_fuel_mono\<close>). The clock assumption of \<open>reachable\<close> (one tick per
  call) is what C1 needs and C18 shows to be necessary. \<open>js_String_nat\<close> is
  \<open>String(n)\<close> for the integers JavaScript prints without an exponent, below
  \<open>10^21\<close>, which covers every \<open>Date.now()\<close> value. Identifiers are unbounded
  (\<open>int\<close>, \<open>string\<close>) as JavaScript numbers below \<open>2^53\<close> and strings
  are for the values the service handles.

  \<^emph>\<open>What is not modelled.\<close> The store holds the room records the service
  wrote rather than their JSON text; \<open>room_json_roundtrip\<close> shows that reading
  the text back gives the record. \<open>JSON.parse\<close> is modelled for integer numbers and \<open>\u\<close> escapes
  below 256 only, which covers everything \<open>JSON.stringify\<close> produces for a room. Store failures
  (\<open>StoreUnavailable\<close>) are modelled in StoreFailure for the last pipeline of a
  call only; a failure inside the earlier pipeline of \<open>respondInvitation\<close> is a
  failure of a \<open>LeaveAll\<close> pipeline, and reads that fail return an error before
  any write. The transport layer,
  \<open>UserService\<close>, \<open>ConnectionService\<close> and \<open>MessageService\<close> are not among
  the sources; Session models them as an interface. When \<open>handleJoinRoom\<close>
  succeeds with a string room id, the record \<open>join\<close> writes has a string among
  its \<open>memberIds\<close>, which the room record of the model (numeric ids, as every
  other path writes) cannot hold: JoinHandler returns that outcome as
  \<open>JoinUntyped\<close>, the typed fields and the pushed value, and no store after it. The bodies of the handlers whose payload
  parameter lacks \<open>@MessageBody()\<close> are modelled as they would run on a
  payload (RoomHandlers, JoinHandler, \<open>handleSendGroupMessage\<close>); Dispatch shows
  that NestJS never runs them past their first read of the payload, so no property
  of the development rests on them. In \<open>RedisIoAdapter\<close>, whether each
  Redis connection succeeds is an input of the model (\<open>ConnectSettled\<close>), and the
  socket.io and Redis-adapter behaviour it relies on (\<open>server.adapter(undefined)\<close>
  throws; a process receives the broadcasts published on the Redis server its
  subscriber uses) is modelled from their documentation. The class-level wiring of
  the gateway (\<open>WsExceptionsFilter\<close>, \<open>ValidationPipe\<close>, the event-name and
  user-id interceptors) is not modelled: those classes are not among the sources and
  the spec does not describe them, so a handler's error is its \<open>Inl\<close> value and
  not the event the filter would emit. The extra \<open>exec()\<close> inside the loop of \<open>leaveMany\<close> is
  modelled as the single final \<open>exec()\<close>; the commands it would resend are
  \<open>SET\<close>, \<open>DEL\<close> and \<open>LREM\<close> of distinct rooms, which the invariant
  makes idempotent.
\<close>

text \<open>
  C1. With \<open>allowJoinMultipleRooms\<close> off, in every state the coordinator can reach,
  every stored room has its owner among its members, no duplicate members, no member
  also waiting, is stored under its own id, the reverse index of every user lists
  exactly the rooms the user is a member of, each once, and no user is in more than
  one room.
\<close>

theorem reachable_invariant:
  assumes "reachable False s t"
  shows "store_inv s \<and> single_room s"
  using reachable_sys_inv [OF assms] by (simp add: sys_inv_def)

theorem reachable_invariant_witness:
  "let r = \<lparr>room_id = ''0'', isPublic = True, ownerId = 1, memberIds = [1, 2],
             waitingIds = [], refusedIds = []\<rparr>;
       s = \<lparr>rooms = [''0'' \<mapsto> r], uid2rids = (\<lambda>_. [])(1 := [''0''], 2 := [''0'']),
             uid2sid = Map.empty\<rparr>
   in reachable False s 2 \<and> store_inv s \<and> single_room s"
proof -
  define r where "r = \<lparr>room_id = ''0'', isPublic = True, ownerId = 1, memberIds = [1::int, 2],
             waitingIds = [], refusedIds = []\<rparr>"
  define s where "s = \<lparr>rooms = [''0'' \<mapsto> r], uid2rids = (\<lambda>_. [])(1 := [''0''], 2 := [''0'']),
             uid2sid = Map.empty\<rparr>"
  let ?s1 = "exec [SET ''0'' (r\<lparr>memberIds := [1]\<rparr>), LPUSH 1 ''0''] (empty_store Map.empty)"
  have e1: "step False 0 (Book 1 True) (empty_store Map.empty) = Inr ?s1"
    by (simp add: store_of_def book_def book_plan_def isMemberOfAny_def empty_store_def Let_def
         js_String_nat.simps digit_char_def r_def)
  have r1: "reachable False ?s1 (Suc 0)" by (rule reachable.call [OF reachable.init e1])
  have e2: "step False (Suc 0) (Join 2 ''0'') ?s1 = Inr s"
    by (simp add: store_of_def join_def join_plan_def isMemberOfAny_def empty_store_def Let_def get_def
         join_room_def js_splice1_def r_def s_def)
  have "reachable False s (Suc (Suc 0))" by (rule reachable.call [OF r1 e2])
  then have r2: "reachable False s 2" by (simp add: numeral_2_eq_2)
  from r2 reachable_invariant [OF r2] show ?thesis by (simp add: r_def s_def)
qed

text \<open>
  C24. Without interleaving, no user is ever locked out: with the single-room policy
  on, from every reachable state a \<open>leaveMany\<close> of all the user's rooms succeeds,
  empties the user's reverse index and leads to a reachable state in which the
  user's \<open>book\<close> at the next clock value succeeds and stores the new room under
  its fresh id. (Compare C23, where an interleaving locks the user out.)
\<close>

theorem leave_all_then_book:
  assumes reach: "reachable False s t"
  shows "\<exists>s'. step False t (LeaveAll u) s = Inr s' \<and> uid2rids s' u = [] \<and> reachable False s' (Suc t) \<and>
           (\<exists>r s''. book False u p (Suc t) s' = Inr (r, s'') \<and>
                    rooms s' (js_String_nat (Suc t)) = None \<and> rooms s'' (js_String_nat (Suc t)) = Some r)"
proof -
  obtain rs s' where lm: "leaveMany u [] s = (rs, s')" by fastforce
  have st: "step False t (LeaveAll u) s = Inr s'" using lm by simp
  have r': "reachable False s' (Suc t)" by (rule reachable.call [OF reach st])
  have inv: "store_inv s" using reachable_sys_inv [OF reach] by (simp add: sys_inv_def)
  have ix: "uid2rids s' u = []" using leaveMany_all [OF inv lm] by simp
  have fresh: "rooms s' (js_String_nat (Suc t)) = None"
    using reachable_sys_inv [OF r'] by (simp add: sys_inv_def keys_before_fresh)
  have "\<exists>r s''. book False u p (Suc t) s' = Inr (r, s'') \<and> rooms s'' (js_String_nat (Suc t)) = Some r"
    using ix by (simp add: book_Inr)
  with st ix r' fresh show ?thesis by blast
qed

theorem leave_all_then_book_witness:
  "reachable False store0 (Suc 0) \<and>
   (\<exists>s'. step False (Suc 0) (LeaveAll 1) store0 = Inr s' \<and> uid2rids s' 1 = [] \<and>
     (\<exists>r s''. book False 1 True (Suc (Suc 0)) s' = Inr (r, s'') \<and> rooms s'' ''2'' = Some r))"
proof -
  have e1: "step False 0 (Book 1 True) (empty_store sids0) = Inr store0"
    by (simp add: book_store0 store_of_def)
  have r1: "reachable False store0 (Suc 0)" by (rule reachable.call [OF reachable.init e1])
  have k: "js_String_nat (Suc (Suc 0)) = ''2''" by (simp add: js_String_nat.simps digit_char_def)
  from leave_all_then_book [OF r1, of 1 True] r1 k show ?thesis by auto
qed

text \<open>
  C33. Under either setting of \<open>allowJoinMultipleRooms\<close>, every key of the room
  key space of a reachable store is the canonical decimal string of a clock value
  that has already passed, and the room stored there carries that key as its
  \<open>id\<close>: room ids are exactly the \<open>String(Date.now())\<close> values of past
  bookings, never an arbitrary string, and \<open>Room:<room.id>\<close> is where each
  method writes a room back.
\<close>

theorem reachable_room_ids:
  assumes reach: "reachable allow s t" and r: "rooms s k = Some r"
  shows "room_id r = k \<and> js_String_nat (decimal_value k) = k \<and> decimal_value k < t"
proof -
  from reachable_keys [OF reach] have kb: "keys_before s t" and id: "room_id r = k"
    using r by auto
  from kb r obtain n where "n < t" "k = js_String_nat n" by (auto simp: keys_before_def)
  with id show ?thesis by (simp add: decimal_value_js_String_nat)
qed

theorem reachable_room_ids_witness:
  "let r = \<lparr>room_id = ''0'', isPublic = True, ownerId = 1, memberIds = [1],
             waitingIds = [], refusedIds = []\<rparr>;
       s = exec [SET ''0'' r, LPUSH 1 ''0''] (empty_store Map.empty)
   in reachable True s 1 \<and> rooms s ''0'' = Some r \<and> room_id r = ''0'' \<and> decimal_value ''0'' < 1"
proof -
  define r where "r = \<lparr>room_id = ''0'', isPublic = True, ownerId = 1, memberIds = [1::int],
             waitingIds = [], refusedIds = []\<rparr>"
  let ?s = "exec [SET ''0'' r, LPUSH 1 ''0''] (empty_store Map.empty)"
  have e: "step True 0 (Book 1 True) (empty_store Map.empty) = Inr ?s"
    by (simp add: store_of_def book_def book_plan_def isMemberOfAny_def empty_store_def Let_def
         js_String_nat.simps digit_char_def r_def)
  have reach: "reachable True ?s 1" using reachable.call [OF reachable.init e] by simp
  have rs: "rooms ?s ''0'' = Some r" by (simp add: empty_store_def)
  from reachable_room_ids [OF reach rs] reach rs show ?thesis by (simp add: r_def)
qed

end
